theory Spec2Isabelle
  imports
    Main
    "HOL-Library.Sublist"
    "HOL-Library.List_Lexorder"
    "HOL-Library.Char_ord"
    "HOL-Library.Multiset"
begin

section \<open>RepoPac: a shallow embedding of \<^verbatim>\<open>RepoPac/RepoPac/main.cpp\<close>\<close>

text \<open>
  The program walks the targets named on its command line and assembles a Markdown
  report in a \<^verbatim>\<open>std::ostringstream\<close>, which it writes to standard output at the end.

  Everything the program does beyond string formatting goes through the C++ standard
  library: \<^verbatim>\<open>std::filesystem\<close> for the file system and \<^verbatim>\<open>iostream\<close> for the
  buffer. The embedding fixes the library as libstdc++ on POSIX (separator \<^verbatim>\<open>/\<close>,
  \<^verbatim>\<open>absolute(p)\<close> is \<^verbatim>\<open>current_path() / p\<close>, \<^verbatim>\<open>generic_string\<close> joins the
  elements of a path with single separators) and models the library calls the source
  makes by what they return there:
  \<^item> a path is a \<^typ>\<open>string\<close> of bytes;
  \<^item> the file system is a finite tree of \<open>node\<close>s; the status queries
    (\<^verbatim>\<open>exists\<close>, \<^verbatim>\<open>is_directory\<close>, \<^verbatim>\<open>is_regular_file\<close>, also those of a
    \<^verbatim>\<open>directory_entry\<close>) follow symbolic links, as \<^verbatim>\<open>status()\<close> does;
  \<^item> an output stream is its buffer together with its failure state: once
    \<^verbatim>\<open>failbit\<close> is set every later insertion is a no-op;
  \<^item> a library call that throws is a result \<open>Inl\<close>: the source catches nothing, so
    the exception leaves \<^verbatim>\<open>main\<close>, the report buffer is never written to standard
    output and the process ends in \<^verbatim>\<open>std::terminate\<close>.
\<close>

subsection \<open>Constants of the source\<close>

definition kToolName :: string where
  "kToolName = ''repopac''"

definition kVersion :: string where
  "kVersion = ''0.1.0''"

definition kMaxBytes :: nat where
  "kMaxBytes = 16 * 1024"

subsection \<open>Output streams\<close>

text \<open>
  \<open>put\<close> is \<^verbatim>\<open>operator<<\<close> on a string, a C string or a character: the sentry of a
  stream that is not good fails and nothing is written. \<open>put_streambuf\<close> is
  \<^verbatim>\<open>operator<<(std::streambuf*)\<close>: it copies the characters of the source up to its
  end, and \<^emph>\<open>if no characters were inserted it executes \<^verbatim>\<open>setstate(failbit)\<close>\<close>
  (C++ standard, [ostream.inserters]). The source never clears the state of its
  buffer, and \<^verbatim>\<open>out.str()\<close> returns the characters written whatever the state is.
\<close>

record ostream =
  buf :: string
  failbit :: bool

definition ostringstream :: ostream where
  "ostringstream = \<lparr>buf = [], failbit = False\<rparr>"

definition put :: "ostream \<Rightarrow> string \<Rightarrow> ostream" where
  "put os s = (if failbit os then os else os\<lparr>buf := buf os @ s\<rparr>)"

definition put_streambuf :: "ostream \<Rightarrow> string \<Rightarrow> ostream" where
  "put_streambuf os src =
     (if failbit os then os
      else if src = [] then os\<lparr>failbit := True\<rparr>
      else os\<lparr>buf := buf os @ src\<rparr>)"

text \<open>The two streams a rendering step can write to: the report buffer \<^verbatim>\<open>out\<close>, passed
  by reference through every call, and the process-wide \<^verbatim>\<open>std::cerr\<close>.\<close>

record streams =
  out :: ostream
  cerr :: string

definition to_out :: "streams \<Rightarrow> string \<Rightarrow> streams" where
  "to_out st s = st\<lparr>out := put (out st) s\<rparr>"

definition to_cerr :: "streams \<Rightarrow> string \<Rightarrow> streams" where
  "to_cerr st s = st\<lparr>cerr := cerr st @ s\<rparr>"

subsection \<open>Decimal output of a size\<close>

definition digit_char :: "nat \<Rightarrow> char" where
  "digit_char d = ''0123456789'' ! (d mod 10)"

function show_nat :: "nat \<Rightarrow> string" where
  "show_nat n = (if n < 10 then [digit_char n] else show_nat (n div 10) @ [digit_char (n mod 10)])"
  by pat_completeness auto
termination
  by (relation "measure (\<lambda>n. n)") auto

declare show_nat.simps [simp del]

subsection \<open>Paths (POSIX)\<close>

type_synonym path = string

definition is_absolute :: "path \<Rightarrow> bool" where
  "is_absolute p = (p \<noteq> [] \<and> hd p = CHR ''/'')"

definition has_filename :: "path \<Rightarrow> bool" where
  "has_filename p = (p \<noteq> [] \<and> last p \<noteq> CHR ''/'')"

text \<open>\<^verbatim>\<open>operator/\<close>: an absolute right operand replaces the left one; otherwise a
  separator is added when the left operand ends in a filename.\<close>

definition path_append :: "path \<Rightarrow> path \<Rightarrow> path" where
  "path_append p q =
     (if is_absolute q then q
      else if has_filename p then p @ ''/'' @ q
      else p @ q)"

definition filename :: "path \<Rightarrow> string" where
  "filename p = rev (takeWhile (\<lambda>c. c \<noteq> CHR ''/'') (rev p))"

text \<open>\<^verbatim>\<open>path::extension\<close>: the part of the filename from its rightmost period on,
  empty for the special names dot and dot-dot, for a name with no period and for a
  name whose only period is its first character.\<close>

definition extension :: "path \<Rightarrow> string" where
  "extension p =
     (let f = filename p;
          after = takeWhile (\<lambda>c. c \<noteq> CHR ''.'') (rev f);
          upto = dropWhile (\<lambda>c. c \<noteq> CHR ''.'') (rev f)
      in if f = ''.'' \<or> f = ''..'' then []
         else if upto = [] then []
         else if tl upto = [] then []
         else CHR ''.'' # rev after)"

definition absolute :: "path \<Rightarrow> path \<Rightarrow> path" where
  "absolute current_path p = (if is_absolute p then p else path_append current_path p)"

text \<open>The filename elements of a path: the pieces between separators, without the
  empty ones that repeated separators leave.\<close>

fun components_from :: "string \<Rightarrow> path \<Rightarrow> string list" where
  "components_from cur [] = [cur]"
| "components_from cur (c # cs) =
     (if c = CHR ''/'' then cur # components_from [] cs else components_from (cur @ [c]) cs)"

definition components :: "path \<Rightarrow> string list" where
  "components p = filter (\<lambda>c. c \<noteq> []) (components_from [] p)"

fun join_elements :: "string list \<Rightarrow> string" where
  "join_elements [] = []"
| "join_elements [x] = x"
| "join_elements (x # y # zs) = x @ ''/'' @ join_elements (y # zs)"

text \<open>\<^verbatim>\<open>path::generic_string\<close> builds its result from the elements of the path: the
  root directory, when the path has one, then the filenames with one separator
  between them; a path that ends in a separator after a filename has an empty last
  element, which leaves one separator at the end. Repeated separators collapse; dot
  and dot-dot stay.\<close>

definition generic_string :: "path \<Rightarrow> string" where
  "generic_string p =
     (if is_absolute p then ''/'' else []) @ join_elements (components p) @
     (if components p \<noteq> [] \<and> last p = CHR ''/'' then ''/'' else [])"

subsection \<open>The file system\<close>

text \<open>
  A regular file has its bytes and whether an \<^verbatim>\<open>ifstream\<close> on it opens; its size is
  the number of its bytes. A directory \<open>Directory es\<close> can be read and searched: it has
  its entries, in the order in which \<^verbatim>\<open>directory_iterator\<close> happens to enumerate
  them (which is unspecified). A directory \<open>Locked searchable es\<close> cannot be read: the
  iterator constructed with an \<^verbatim>\<open>error_code\<close> is then the end iterator and enumerates
  no entry. Its entries are there all the same, and a path below it can still be
  queried when the directory is searchable (mode \<^verbatim>\<open>--x\<close>); when it is not (mode
  \<^verbatim>\<open>---\<close>), the query fails with \<^verbatim>\<open>EACCES\<close>. A symbolic
  link carries what it points to (\<open>Missing\<close> when it dangles); \<open>Other\<close> is a device,
  socket or FIFO; \<open>Missing\<close> is a path that names nothing.

  Outside the model are a cycle of symbolic links (the tree is finite), a symbolic link
  whose target cannot be reached, and a directory that can be read but not searched
  (mode \<^verbatim>\<open>r--\<close>): as a root it makes \<^verbatim>\<open>is_git_repo\<close> throw like a directory without any
  permission, and below the root what the walker sees of it depends on whether the file
  system reports the type of an entry. So every entry that is enumerated can be queried.
\<close>

record file_data =
  bytes :: string
  readable :: bool

datatype node =
    Missing
  | Regular file_data
  | Directory "(string \<times> node) list"
  | Locked bool "(string \<times> node) list"
  | Symlink node
  | Other

text \<open>\<^verbatim>\<open>fs::status\<close>: the node after following symbolic links.\<close>

fun status :: "node \<Rightarrow> node" where
  "status (Symlink t) = status t"
| "status n = n"

definition fs_exists :: "node \<Rightarrow> bool" where
  "fs_exists n = (status n \<noteq> Missing)"

definition fs_is_directory :: "node \<Rightarrow> bool" where
  "fs_is_directory n =
     (case status n of Directory es \<Rightarrow> True | Locked searchable es \<Rightarrow> True | _ \<Rightarrow> False)"

definition fs_is_regular_file :: "node \<Rightarrow> bool" where
  "fs_is_regular_file n = (case status n of Regular f \<Rightarrow> True | _ \<Rightarrow> False)"

definition directory_iterator :: "node \<Rightarrow> (string \<times> node) list" where
  "directory_iterator n = (case status n of Directory es \<Rightarrow> es | _ \<Rightarrow> [])"

text \<open>\<^verbatim>\<open>fs::file_size(p, ec)\<close> returns \<^verbatim>\<open>static_cast<uintmax_t>(-1)\<close> on error.\<close>

definition file_size :: "node \<Rightarrow> nat" where
  "file_size n = (case status n of Regular f \<Rightarrow> length (bytes f) | _ \<Rightarrow> 2 ^ 64 - 1)"

definition ifstream_open :: "node \<Rightarrow> string option" where
  "ifstream_open n =
     (case status n of
        Regular f \<Rightarrow> if readable f then Some (bytes f) else None
      | _ \<Rightarrow> None)"

text \<open>The entries that a directory holds, whether or not they can be enumerated, and
  whether paths below it can be queried.\<close>

definition entries_of :: "node \<Rightarrow> (string \<times> node) list" where
  "entries_of n =
     (case status n of Directory es \<Rightarrow> es | Locked searchable es \<Rightarrow> es | _ \<Rightarrow> [])"

definition can_search :: "node \<Rightarrow> bool" where
  "can_search n = (case status n of Locked searchable es \<Rightarrow> searchable | _ \<Rightarrow> True)"

text \<open>The query \<^verbatim>\<open>stat(dir / name)\<close>, which does not go through the enumeration of
  \<open>dir\<close>: \<open>None\<close> when it fails with an error other than "not found", otherwise the node
  under that name (\<open>Missing\<close> when there is none, also when \<open>dir\<close> is not a directory).\<close>

definition stat_child :: "node \<Rightarrow> string \<Rightarrow> node option" where
  "stat_child dir name =
     (if can_search dir
      then Some (case map_of (entries_of dir) name of Some c \<Rightarrow> c | None \<Rightarrow> Missing)
      else None)"

text \<open>What the program can throw: the \<^verbatim>\<open>filesystem_error\<close> of \<^verbatim>\<open>fs::status\<close> on a path.
  An uncaught exception is kept together with what \<^verbatim>\<open>std::cerr\<close> had received when it
  was thrown.\<close>

datatype error = Filesystem_error path

type_synonym uncaught = "error \<times> string"

text \<open>The environment of one run: the current directory and what each path given on
  the command line names. Where a function of the source takes a path and asks the
  file system about it, the function of the model takes the node that the path names
  (next to the path, where the path itself is printed).\<close>

record world =
  cwd :: path
  lookup :: "path \<Rightarrow> node"

definition pexists :: "world \<Rightarrow> path \<Rightarrow> bool" where
  "pexists w p = fs_exists (lookup w p)"

definition is_dir :: "world \<Rightarrow> path \<Rightarrow> bool" where
  "is_dir w p = fs_is_directory (lookup w p)"

definition is_file :: "world \<Rightarrow> path \<Rightarrow> bool" where
  "is_file w p = fs_is_regular_file (lookup w p)"

text \<open>\<^verbatim>\<open>is_git_repo\<close> calls the overloads of \<^verbatim>\<open>fs::exists\<close> and \<^verbatim>\<open>fs::is_directory\<close>
  that take no \<^verbatim>\<open>error_code\<close>: they throw when the query fails.\<close>

definition is_git_repo :: "path \<Rightarrow> node \<Rightarrow> error + bool" where
  "is_git_repo dir n =
     (case stat_child n ''.git'' of
        None \<Rightarrow> Inl (Filesystem_error (path_append dir ''.git''))
      | Some c \<Rightarrow> Inr (fs_exists c \<and> fs_is_directory c))"

subsection \<open>Tree Walker\<close>

text \<open>
  \<^verbatim>\<open>std::sort\<close> with the comparator \<^verbatim>\<open>a.path().filename() < b.path().filename()\<close>:
  the entries in ascending order of their names, compared byte by byte. The name of an
  entry is the filename component of its path. The queries \<^verbatim>\<open>e.is_directory()\<close> and
  \<^verbatim>\<open>e.is_regular_file()\<close> of the walker are the throwing ones; every entry that the
  model enumerates can be queried, so they return.
\<close>

definition sort_entries :: "(string \<times> node) list \<Rightarrow> (string \<times> node) list" where
  "sort_entries es = sort_key fst es"

lemma size_status: "size (status n) \<le> size n"
  by (induction n rule: status.induct) auto

lemma size_entry: "e \<in> set es \<Longrightarrow> size (snd e) < size (Directory es)"
  by (induction es) (auto simp: less_Suc_eq_le)

lemma size_entry_locked: "e \<in> set es \<Longrightarrow> size (snd e) < size (Locked searchable es)"
  by (induction es) (auto simp: less_Suc_eq_le)

lemma entry_size: "e \<in> set (directory_iterator n) \<Longrightarrow> size (snd e) < size n"
proof (cases "status n")
  case (Directory es)
  assume "e \<in> set (directory_iterator n)"
  with Directory have "e \<in> set es" by (simp add: directory_iterator_def)
  then have "size (snd e) < size (status n)" using size_entry Directory by metis
  with size_status [of n] show ?thesis by simp
qed (auto simp: directory_iterator_def)

text \<open>\<^verbatim>\<open>collect_files(root, files)\<close> appends to the vector \<open>files\<close>; the model returns
  the vector. Each path is kept together with the node it names, which is what
  \<^verbatim>\<open>print_file\<close> finds when it opens the path.\<close>

function collect_files :: "path \<Rightarrow> node \<Rightarrow> (path \<times> node) list \<Rightarrow> (path \<times> node) list" where
  "collect_files root n files =
     (if \<not> fs_exists n then files
      else if fs_is_directory n then
        fold (\<lambda>e fs.
                if fs_is_directory (snd e) then collect_files (path_append root (fst e)) (snd e) fs
                else if fs_is_regular_file (snd e) then fs @ [(path_append root (fst e), snd e)]
                else fs)
             (sort_entries (directory_iterator n)) files
      else if fs_is_regular_file n then files @ [(root, n)]
      else files)"
  by pat_completeness auto
termination
  apply (relation "measure (\<lambda>(root, n, files). size n)")
   apply simp
  apply (auto simp: sort_entries_def dest: entry_size)
  done

declare collect_files.simps [simp del]

function print_structure :: "ostream \<Rightarrow> path \<Rightarrow> node \<Rightarrow> nat \<Rightarrow> ostream" where
  "print_structure os root n depth =
     (if \<not> fs_exists n then os
      else if fs_is_directory n then
        fold (\<lambda>e os'.
                if fs_is_directory (snd e) then
                  print_structure
                    (put (put (put os' (replicate (depth * 2) CHR '' '')) (fst e)) ''/\<newline>'')
                    (path_append root (fst e)) (snd e) (depth + 1)
                else if fs_is_regular_file (snd e) then
                  put (put (put os' (replicate (depth * 2) CHR '' '')) (fst e)) ''\<newline>''
                else os')
             (sort_entries (directory_iterator n)) os
      else os)"
  by pat_completeness auto
termination
  apply (relation "measure (\<lambda>(os, root, n, depth). size n)")
   apply simp
  apply (auto simp: sort_entries_def dest: entry_size)
  done

declare print_structure.simps [simp del]

subsection \<open>File Renderer\<close>

definition fence :: "string \<Rightarrow> string" where
  "fence ext =
     (if ext = ''.json'' then ''```json\<newline>''
      else if ext = ''.js'' then ''```javascript\<newline>''
      else if ext = ''.cpp'' \<or> ext = ''.hpp'' then ''```cpp\<newline>''
      else ''```\<newline>'')"

definition print_file :: "streams \<Rightarrow> path \<Rightarrow> node \<Rightarrow> streams" where
  "print_file st p n =
     (let st1 = to_out (to_out (to_out st ''### File: '') p) ''\<newline>'';
          st2 = to_out st1 (fence (extension p));
          sz = file_size n;
          st3 = (case ifstream_open n of
                   None \<Rightarrow> to_cerr st2 ''(Could not open file)\<newline>''
                 | Some content \<Rightarrow>
                     if sz \<le> kMaxBytes then
                       to_out (st2\<lparr>out := put_streambuf (out st2) content\<rparr>) ''\<newline>''
                     else
                       to_out (to_out (to_out (to_out (to_out
                         (to_out st2 (take kMaxBytes content))
                         ''\<newline>... (truncated; original '') (show_nat sz))
                         '' bytes, showing first '') (show_nat kMaxBytes))
                         '' bytes)\<newline>'')
      in to_out st3 ''```\<newline>\<newline>'')"

subsection \<open>Report Assembler\<close>

definition print_dir :: "world \<Rightarrow> streams \<Rightarrow> path \<Rightarrow> uncaught + streams" where
  "print_dir w st p =
     (let n = lookup w p;
          st1 = to_out st ''# Repository Context\<newline>\<newline>'';
          st2 = to_out st1 ''## File System Location\<newline>\<newline>'';
          st3 = to_out (to_out st2 (generic_string (absolute (cwd w) p))) ''\<newline>\<newline>''
      in case is_git_repo p n of
           Inl e \<Rightarrow> Inl (e, cerr st3)
         | Inr git \<Rightarrow>
             (let st4 = (if git then to_out st3 ''## Git Info\<newline>\<newline>''
                         else to_out st3 ''Not a git repository\<newline>\<newline>'');
                  st5 = to_out (to_out st4 ''## Structure\<newline>'') ''```\<newline>'';
                  st6 = st5\<lparr>out := print_structure (out st5) p n 0\<rparr>;
                  st7 = to_out st6 ''```\<newline>\<newline>'';
                  files = collect_files p n []
              in Inr (if files \<noteq> [] then
                        fold (\<lambda>f s. print_file s (fst f) (snd f)) files
                          (to_out st7 ''## File Contents\<newline>\<newline>'')
                      else st7)))"

subsection \<open>Argument Parser and \<^verbatim>\<open>main\<close>\<close>

definition tab :: string where
  "tab = [CHR 0x09]"

definition print_help :: string where
  "print_help =
     ''Usage: \<newline>'' @ tab @ ''RepoPac [PATH ...][OPTIONS]\<newline>'' @
     ''Description:\<newline>'' @ tab @ ''RepoPac can help you package repository'' @ [CHR 0x27] @
       ''s content\<newline>'' @
     ''Options:\<newline>'' @
     tab @ ''-h, --help'' @ tab @ ''Show this help and exit\<newline>'' @
     tab @ ''-v, --version'' @ tab @ ''Show version and exit\<newline>'' @
     ''Arguments:\<newline>'' @
     tab @ ''One directories/One or more files(default: .)\<newline>''"

record outcome =
  stdout :: string
  stderr :: string
  exit_code :: int

text \<open>The flag loop: \<open>Inl\<close> is a \<^verbatim>\<open>return\<close> from inside the loop, \<open>Inr\<close> the vector
  \<open>paths\<close> when the loop runs to its end.\<close>

fun parse_args :: "string list \<Rightarrow> string list \<Rightarrow> outcome + string list" where
  "parse_args [] paths = Inr paths"
| "parse_args (arg # rest) paths =
     (if arg = ''-h'' \<or> arg = ''--help'' then
        Inl \<lparr>stdout = print_help, stderr = [], exit_code = 0\<rparr>
      else if arg = ''-v'' \<or> arg = ''--version'' then
        Inl \<lparr>stdout = kToolName @ '' '' @ kVersion @ ''\<newline>'', stderr = [], exit_code = 0\<rparr>
      else if arg \<noteq> [] \<and> hd arg = CHR ''-'' then
        Inl \<lparr>stdout = [],
             stderr = ''Unknown option: '' @ arg @ ''\<newline>'' @ ''Use -h or --help for usage.\<newline>'',
             exit_code = 1\<rparr>
      else parse_args rest (paths @ [arg]))"

text \<open>The body of the loop over the targets, and the loop: an exception ends it.\<close>

definition process_path :: "world \<Rightarrow> path \<Rightarrow> streams \<Rightarrow> uncaught + streams" where
  "process_path w p st =
     (if \<not> pexists w p then Inr (to_cerr st (p @ ''is not a valid directory or file\<newline>''))
      else if is_dir w p then print_dir w st p
      else if is_file w p then
        Inr (print_file (to_out st ''## File Contents\<newline>\<newline>'') p (lookup w p))
      else Inr st)"

fun process_paths :: "world \<Rightarrow> path list \<Rightarrow> streams \<Rightarrow> uncaught + streams" where
  "process_paths w [] st = Inr st"
| "process_paths w (p # ps) st =
     (case process_path w p st of
        Inl e \<Rightarrow> Inl e
      | Inr st' \<Rightarrow> process_paths w ps st')"

text \<open>What libstdc++'s terminate handler writes to the error stream for the uncaught
  exception, before it calls \<^verbatim>\<open>abort\<close>; a shell reports the exit status 134.\<close>

definition terminate_message :: "error \<Rightarrow> string" where
  "terminate_message e =
     (case e of Filesystem_error p \<Rightarrow>
        ''terminate called after throwing an instance of '' @ [CHR 0x27] @
        ''std::filesystem::__cxx11::filesystem_error'' @ [CHR 0x27] @ ''\<newline>'' @
        ''  what():  filesystem error: status: Permission denied ['' @ p @ '']\<newline>'')"

text \<open>The run over the targets: when the loop ends \<^verbatim>\<open>main\<close> writes the report buffer to
  standard output and returns 0; when an exception leaves the loop nothing reaches
  standard output.\<close>

definition run_paths :: "world \<Rightarrow> path list \<Rightarrow> outcome" where
  "run_paths w paths =
     (case process_paths w paths \<lparr>out = ostringstream, cerr = []\<rparr> of
        Inl (e, err) \<Rightarrow> \<lparr>stdout = [], stderr = err @ terminate_message e, exit_code = 134\<rparr>
      | Inr st \<Rightarrow> \<lparr>stdout = buf (out st), stderr = cerr st, exit_code = 0\<rparr>)"

definition main :: "world \<Rightarrow> string list \<Rightarrow> outcome" where
  "main w args =
     (case parse_args args [] of
        Inl r \<Rightarrow> r
      | Inr paths \<Rightarrow> run_paths w (if paths = [] then [''.''] else paths))"

section \<open>Properties\<close>

subsection \<open>Stream insertions\<close>

lemma put_put [simp]: "put (put os a) b = put os (a @ b)"
  by (simp add: put_def)

lemma put_Nil [simp]: "put os [] = os"
  by (simp add: put_def)

lemma failbit_put [simp]: "failbit (put os s) = failbit os"
  by (simp add: put_def)

lemma buf_put: "buf (put os s) = (if failbit os then buf os else buf os @ s)"
  by (simp add: put_def)

lemma put_failed: "failbit os \<Longrightarrow> put os s = os"
  by (simp add: put_def)

lemma put_ostringstream [simp]: "buf (put ostringstream s) = s"
  by (simp add: put_def ostringstream_def)

subsection \<open>The walker as a function of the tree\<close>

text \<open>The walker only ever appends: to the report buffer (which it cannot make fail) and
  to the vector of files. Its effect is the text, or the list, that it appends.\<close>

lemma fold_put:
  "(\<And>e os. e \<in> set xs \<Longrightarrow> f e os = put os (g e)) \<Longrightarrow> fold f xs os = put os (concat (map g xs))"
  by (induction xs arbitrary: os) auto

definition structure_text :: "path \<Rightarrow> node \<Rightarrow> nat \<Rightarrow> string" where
  "structure_text root n depth = buf (print_structure ostringstream root n depth)"

definition entry_lines :: "path \<Rightarrow> nat \<Rightarrow> string \<times> node \<Rightarrow> string" where
  "entry_lines root depth e =
     (if fs_is_directory (snd e) then
        replicate (depth * 2) CHR '' '' @ fst e @ ''/\<newline>'' @
        structure_text (path_append root (fst e)) (snd e) (depth + 1)
      else if fs_is_regular_file (snd e) then replicate (depth * 2) CHR '' '' @ fst e @ ''\<newline>''
      else [])"

lemma fs_is_directory_exists: "fs_is_directory n \<Longrightarrow> fs_exists n"
  by (auto simp: fs_is_directory_def fs_exists_def split: node.splits)

lemma fs_is_regular_file_exists: "fs_is_regular_file n \<Longrightarrow> fs_exists n"
  by (auto simp: fs_is_regular_file_def fs_exists_def split: node.splits)

lemma not_dir_and_file: "fs_is_directory n \<Longrightarrow> \<not> fs_is_regular_file n"
  by (auto simp: fs_is_directory_def fs_is_regular_file_def split: node.splits)

lemma print_structure_not_dir: "\<not> fs_is_directory n \<Longrightarrow> print_structure os root n depth = os"
  by (subst print_structure.simps) simp

lemma print_structure_put_aux:
  "print_structure os root n depth =
     put os (if fs_is_directory n
             then concat (map (entry_lines root depth) (sort_entries (directory_iterator n)))
             else [])"
proof (induction n arbitrary: os root depth rule: measure_induct_rule [of size])
  case (less n)
  show ?case
  proof (cases "fs_is_directory n")
    case False
    then show ?thesis by (simp add: print_structure_not_dir)
  next
    case True
    have step: "(if fs_is_directory (snd e) then
                  print_structure
                    (put (put (put os' (replicate (depth * 2) CHR '' '')) (fst e)) ''/\<newline>'')
                    (path_append root (fst e)) (snd e) (depth + 1)
                else if fs_is_regular_file (snd e) then
                  put (put (put os' (replicate (depth * 2) CHR '' '')) (fst e)) ''\<newline>''
                else os') = put os' (entry_lines root depth e)"
      if "e \<in> set (sort_entries (directory_iterator n))" for e os'
    proof (cases "fs_is_directory (snd e)")
      case d: True
      from that have small: "size (snd e) < size n"
        by (simp add: sort_entries_def entry_size)
      have "structure_text (path_append root (fst e)) (snd e) (depth + 1) =
            concat (map (entry_lines (path_append root (fst e)) (depth + 1))
                (sort_entries (directory_iterator (snd e))))"
        unfolding structure_text_def by (subst less.IH [OF small]) (simp add: d)
      then show ?thesis
        using d by (subst less.IH [OF small]) (simp add: entry_lines_def)
    next
      case False
      then show ?thesis by (simp add: entry_lines_def)
    qed
    show ?thesis
      using True
      by (subst print_structure.simps) (simp add: fs_is_directory_exists fold_put [OF step])
  qed
qed

lemma structure_text_eq:
  "structure_text root n depth =
     (if fs_is_directory n
      then concat (map (entry_lines root depth) (sort_entries (directory_iterator n)))
      else [])"
  unfolding structure_text_def by (subst print_structure_put_aux) simp

lemma print_structure_put: "print_structure os root n depth = put os (structure_text root n depth)"
  by (simp only: structure_text_eq print_structure_put_aux)

definition file_list :: "path \<Rightarrow> node \<Rightarrow> (path \<times> node) list" where
  "file_list root n = collect_files root n []"

definition entry_files :: "path \<Rightarrow> string \<times> node \<Rightarrow> (path \<times> node) list" where
  "entry_files root e =
     (if fs_is_directory (snd e) then file_list (path_append root (fst e)) (snd e)
      else if fs_is_regular_file (snd e) then [(path_append root (fst e), snd e)]
      else [])"

lemma fold_snoc:
  "(\<And>e fs. e \<in> set xs \<Longrightarrow> f e fs = fs @ g e) \<Longrightarrow> fold f xs fs = fs @ concat (map g xs)"
  by (induction xs arbitrary: fs) auto

lemma collect_files_aux:
  "collect_files root n files =
     files @ (if fs_is_directory n
              then concat (map (entry_files root) (sort_entries (directory_iterator n)))
              else if fs_is_regular_file n then [(root, n)] else [])"
proof (induction n arbitrary: files root rule: measure_induct_rule [of size])
  case (less n)
  show ?case
  proof (cases "fs_is_directory n")
    case False
    then show ?thesis by (subst collect_files.simps) (simp add: fs_is_regular_file_exists)
  next
    case True
    have step: "(if fs_is_directory (snd e) then
                   collect_files (path_append root (fst e)) (snd e) fs
                 else if fs_is_regular_file (snd e) then fs @ [(path_append root (fst e), snd e)]
                 else fs) = fs @ entry_files root e"
      if "e \<in> set (sort_entries (directory_iterator n))" for e fs
    proof (cases "fs_is_directory (snd e)")
      case d: True
      from that have small: "size (snd e) < size n"
        by (simp add: sort_entries_def entry_size)
      have "file_list (path_append root (fst e)) (snd e) =
            concat (map (entry_files (path_append root (fst e)))
                (sort_entries (directory_iterator (snd e))))"
        unfolding file_list_def by (subst less.IH [OF small]) (simp add: d)
      then show ?thesis
        using d by (subst less.IH [OF small]) (simp add: entry_files_def)
    next
      case False
      then show ?thesis by (simp add: entry_files_def)
    qed
    show ?thesis
      using True
      by (subst collect_files.simps) (simp add: fs_is_directory_exists fold_snoc [OF step])
  qed
qed

lemma file_list_eq:
  "file_list root n =
     (if fs_is_directory n
      then concat (map (entry_files root) (sort_entries (directory_iterator n)))
      else if fs_is_regular_file n then [(root, n)] else [])"
  unfolding file_list_def by (subst collect_files_aux) simp

lemma collect_files_append: "collect_files root n files = files @ file_list root n"
  by (simp only: file_list_eq collect_files_aux)

subsection \<open>The flag loop\<close>

text \<open>The first argument that starts with \<^verbatim>\<open>-\<close> decides what the loop does: the
  arguments before it are positional and are only collected.\<close>

definition starts_with_dash :: "string \<Rightarrow> bool" where
  "starts_with_dash arg = (arg \<noteq> [] \<and> hd arg = CHR ''-'')"

definition help_outcome :: outcome where
  "help_outcome = \<lparr>stdout = print_help, stderr = [], exit_code = 0\<rparr>"

definition version_outcome :: outcome where
  "version_outcome = \<lparr>stdout = ''repopac 0.1.0\<newline>'', stderr = [], exit_code = 0\<rparr>"

definition unknown_option_outcome :: "string \<Rightarrow> outcome" where
  "unknown_option_outcome arg =
     \<lparr>stdout = [],
      stderr = ''Unknown option: '' @ arg @ ''\<newline>Use -h or --help for usage.\<newline>'',
      exit_code = 1\<rparr>"

text \<open>Two small environments for concrete runs: one in which no path names anything,
  and one with a regular file and a device.\<close>

definition empty_world :: world where
  "empty_world = \<lparr>cwd = ''/'', lookup = (\<lambda>p. Missing)\<rparr>"

definition demo_world :: world where
  "demo_world =
     \<lparr>cwd = ''/home/u'',
      lookup = (\<lambda>p. if p = ''notes.txt'' then Regular \<lparr>bytes = ''todo\<newline>'', readable = True\<rparr>
                     else if p = ''/dev/null'' then Other
                     else Missing)\<rparr>"

lemma flags_start_with_dash:
  "starts_with_dash ''-h''" "starts_with_dash ''--help''"
  "starts_with_dash ''-v''" "starts_with_dash ''--version''"
  by (simp_all add: starts_with_dash_def)

lemma not_dash_not_flag:
  "\<not> starts_with_dash a \<Longrightarrow> a \<noteq> ''-h'' \<and> a \<noteq> ''--help'' \<and> a \<noteq> ''-v'' \<and> a \<noteq> ''--version''"
  using flags_start_with_dash by auto

lemma parse_args_no_dash:
  "find starts_with_dash args = None \<Longrightarrow> parse_args args paths = Inr (paths @ args)"
proof (induction args arbitrary: paths)
  case Nil
  then show ?case by simp
next
  case (Cons a args)
  then have nd: "\<not> starts_with_dash a" and rest: "find starts_with_dash args = None"
    by (auto split: if_splits)
  from nd have "parse_args (a # args) paths = parse_args args (paths @ [a])"
    using not_dash_not_flag [OF nd] by (auto simp: starts_with_dash_def)
  with Cons.IH [OF rest] show ?case by simp
qed

lemma parse_args_first_dash:
  "find starts_with_dash args = Some a \<Longrightarrow>
   parse_args args paths =
     Inl (if a = ''-h'' \<or> a = ''--help'' then help_outcome
          else if a = ''-v'' \<or> a = ''--version'' then version_outcome
          else unknown_option_outcome a)"
proof (induction args arbitrary: paths)
  case Nil
  then show ?case by simp
next
  case (Cons b args)
  show ?case
  proof (cases "starts_with_dash b")
    case True
    with Cons.prems have "b = a" by simp
    with True show ?thesis
      by (simp add: starts_with_dash_def help_outcome_def version_outcome_def
          unknown_option_outcome_def kToolName_def kVersion_def)
  next
    case False
    with Cons.prems have rest: "find starts_with_dash args = Some a" by simp
    from False have "parse_args (b # args) paths = parse_args args (paths @ [b])"
      using not_dash_not_flag [OF False] by (auto simp: starts_with_dash_def)
    with Cons.IH [OF rest] show ?thesis by simp
  qed
qed

subsection \<open>The report buffer and the error stream are written independently\<close>

lemma to_out_mk [simp]: "to_out \<lparr>out = os, cerr = c\<rparr> s = \<lparr>out = put os s, cerr = c\<rparr>"
  by (simp add: to_out_def)

lemma to_cerr_mk [simp]: "to_cerr \<lparr>out = os, cerr = c\<rparr> s = \<lparr>out = os, cerr = c @ s\<rparr>"
  by (simp add: to_cerr_def)

definition file_out :: "ostream \<Rightarrow> path \<Rightarrow> node \<Rightarrow> ostream" where
  "file_out os p n = out (print_file \<lparr>out = os, cerr = []\<rparr> p n)"

definition file_err :: "node \<Rightarrow> string" where
  "file_err n = (case ifstream_open n of None \<Rightarrow> ''(Could not open file)\<newline>'' | Some content \<Rightarrow> [])"

lemma print_file_split:
  "print_file st p n = \<lparr>out = file_out (out st) p n, cerr = cerr st @ file_err n\<rparr>"
  by (cases st)
    (simp add: print_file_def file_out_def file_err_def Let_def split: option.splits)

definition files_out :: "ostream \<Rightarrow> (path \<times> node) list \<Rightarrow> ostream" where
  "files_out os files = fold (\<lambda>f os'. file_out os' (fst f) (snd f)) files os"

lemma fold_print_file_split:
  "fold (\<lambda>f s. print_file s (fst f) (snd f)) files st =
     \<lparr>out = files_out (out st) files, cerr = cerr st @ concat (map (\<lambda>f. file_err (snd f)) files)\<rparr>"
  by (induction files arbitrary: st) (simp_all add: files_out_def print_file_split)

text \<open>What \<^verbatim>\<open>is_git_repo\<close> returns when it returns: it throws exactly when the
  directory cannot be searched.\<close>

definition git_found :: "node \<Rightarrow> bool" where
  "git_found n =
     (case stat_child n ''.git'' of Some c \<Rightarrow> fs_exists c \<and> fs_is_directory c | None \<Rightarrow> False)"

lemma is_git_repo_eq:
  "is_git_repo dir n =
     (if can_search n then Inr (git_found n)
      else Inl (Filesystem_error (path_append dir ''.git'')))"
  by (simp add: is_git_repo_def git_found_def stat_child_def)

definition dir_text :: "world \<Rightarrow> path \<Rightarrow> string" where
  "dir_text w p =
     ''# Repository Context\<newline>\<newline>'' @ ''## File System Location\<newline>\<newline>'' @
     generic_string (absolute (cwd w) p) @ ''\<newline>\<newline>'' @
     (if git_found (lookup w p) then ''## Git Info\<newline>\<newline>''
      else ''Not a git repository\<newline>\<newline>'') @
     ''## Structure\<newline>'' @ ''```\<newline>'' @ structure_text p (lookup w p) 0 @ ''```\<newline>\<newline>'' @
     (if file_list p (lookup w p) \<noteq> [] then ''## File Contents\<newline>\<newline>'' else [])"

definition dir_err :: "world \<Rightarrow> path \<Rightarrow> string" where
  "dir_err w p = concat (map (\<lambda>f. file_err (snd f)) (file_list p (lookup w p)))"

lemma files_out_Nil [simp]: "files_out os [] = os"
  by (simp add: files_out_def)

lemma print_dir_split:
  "print_dir w st p =
     (if can_search (lookup w p) then
        Inr \<lparr>out = files_out (put (out st) (dir_text w p)) (file_list p (lookup w p)),
             cerr = cerr st @ dir_err w p\<rparr>
      else Inl (Filesystem_error (path_append p ''.git''), cerr st))"
proof (cases st)
  case (fields os c)
  show ?thesis
  proof (cases "can_search (lookup w p)")
    case False
    then show ?thesis
      unfolding print_dir_def Let_def fields by (simp add: is_git_repo_eq)
  next
    case search: True
    show ?thesis
    proof (cases "file_list p (lookup w p) = []")
      case True
      with search show ?thesis
        unfolding print_dir_def Let_def fields file_list_def [symmetric]
        by (simp add: is_git_repo_eq print_structure_put dir_text_def dir_err_def)
    next
      case False
      with search show ?thesis
        unfolding print_dir_def Let_def fields file_list_def [symmetric]
        by (simp add: is_git_repo_eq print_structure_put dir_text_def dir_err_def
            fold_print_file_split)
    qed
  qed
qed

definition path_out :: "world \<Rightarrow> path \<Rightarrow> ostream \<Rightarrow> ostream" where
  "path_out w p os =
     (if \<not> pexists w p then os
      else if is_dir w p then files_out (put os (dir_text w p)) (file_list p (lookup w p))
      else if is_file w p then file_out (put os ''## File Contents\<newline>\<newline>'') p (lookup w p)
      else os)"

definition path_err :: "world \<Rightarrow> path \<Rightarrow> string" where
  "path_err w p =
     (if \<not> pexists w p then p @ ''is not a valid directory or file\<newline>''
      else if is_dir w p then dir_err w p
      else if is_file w p then file_err (lookup w p)
      else [])"

text \<open>The targets at which the loop ends with an exception: the directories that
  cannot be searched.\<close>

definition throws :: "world \<Rightarrow> path \<Rightarrow> bool" where
  "throws w p = (is_dir w p \<and> \<not> can_search (lookup w p))"

lemma process_path_split:
  "process_path w p st =
     (if throws w p then Inl (Filesystem_error (path_append p ''.git''), cerr st)
      else Inr \<lparr>out = path_out w p (out st), cerr = cerr st @ path_err w p\<rparr>)"
  by (cases st)
    (auto simp: process_path_def path_out_def path_err_def throws_def print_dir_split
      print_file_split is_dir_def pexists_def fs_is_directory_exists)

lemma process_paths_split:
  "process_paths w ps st =
     (case find (throws w) ps of
        None \<Rightarrow>
          Inr \<lparr>out = fold (path_out w) ps (out st), cerr = cerr st @ concat (map (path_err w) ps)\<rparr>
      | Some q \<Rightarrow>
          Inl (Filesystem_error (path_append q ''.git''),
               cerr st @ concat (map (path_err w) (takeWhile (\<lambda>p. \<not> throws w p) ps))))"
proof (induction ps arbitrary: st)
  case Nil
  then show ?case by simp
next
  case (Cons p ps)
  show ?case
  proof (cases "throws w p")
    case True
    then show ?thesis by (simp add: process_path_split)
  next
    case False
    then show ?thesis
      by (simp add: process_path_split Cons.IH split: option.splits)
  qed
qed

lemma run_paths_eq:
  "run_paths w ps =
     (case find (throws w) ps of
        None \<Rightarrow>
          \<lparr>stdout = buf (fold (path_out w) ps ostringstream),
           stderr = concat (map (path_err w) ps),
           exit_code = 0\<rparr>
      | Some q \<Rightarrow>
          \<lparr>stdout = [],
           stderr = concat (map (path_err w) (takeWhile (\<lambda>p. \<not> throws w p) ps)) @
                    terminate_message (Filesystem_error (path_append q ''.git'')),
           exit_code = 134\<rparr>)"
  by (simp add: run_paths_def process_paths_split split: option.splits)

lemma run_paths_returns:
  "find (throws w) ps = None \<Longrightarrow>
   run_paths w ps =
     \<lparr>stdout = buf (fold (path_out w) ps ostringstream),
      stderr = concat (map (path_err w) ps),
      exit_code = 0\<rparr>"
  by (simp add: run_paths_eq)

lemma not_dir_not_throws: "\<not> is_dir w p \<Longrightarrow> \<not> throws w p"
  by (simp add: throws_def)


lemma find_skip:
  "\<not> P p \<Longrightarrow> find P (pre @ p # post) = find P (pre @ post)"
  by (induction pre) auto

lemma takeWhile_skip:
  "Q p \<Longrightarrow> f p = [] \<Longrightarrow>
   concat (map f (takeWhile Q (pre @ p # post))) = concat (map f (takeWhile Q (pre @ post)))"
  by (induction pre) auto

lemma main_positional:
  "find starts_with_dash args = None \<Longrightarrow>
   main w args = run_paths w (if args = [] then [''.''] else args)"
  by (simp add: main_def parse_args_no_dash)


lemma path_out_other: "pexists w p \<Longrightarrow> \<not> is_dir w p \<Longrightarrow> \<not> is_file w p \<Longrightarrow> path_out w p os = os"
  by (simp add: path_out_def)


subsection \<open>The renderer\<close>

lemma show_nat_kMaxBytes: "show_nat kMaxBytes = ''16384''"
  by (simp add: kMaxBytes_def show_nat.simps digit_char_def)

lemma kMaxBytes_eq: "kMaxBytes = 16384"
  by (simp add: kMaxBytes_def)

lemma ifstream_open_size: "ifstream_open n = Some content \<Longrightarrow> file_size n = length content"
  by (auto simp: ifstream_open_def file_size_def split: node.splits if_splits)

lemma put_good: "\<not> failbit os \<Longrightarrow> put os s = \<lparr>buf = buf os @ s, failbit = False\<rparr>"
  by (cases os) (simp add: put_def)

lemma put_streambuf_good:
  "\<not> failbit os \<Longrightarrow> src \<noteq> [] \<Longrightarrow> put_streambuf os src = put os src"
  by (simp add: put_streambuf_def put_def)

lemma put_streambuf_empty: "put_streambuf os [] = os\<lparr>failbit := True\<rparr>"
  by (cases os) (simp add: put_streambuf_def)

lemma file_out_eq:
  "file_out os p n =
     (case ifstream_open n of
        None \<Rightarrow> put os (''### File: '' @ p @ ''\<newline>'' @ fence (extension p) @ ''```\<newline>\<newline>'')
      | Some content \<Rightarrow>
          if length content \<le> kMaxBytes then
            put (put_streambuf (put os (''### File: '' @ p @ ''\<newline>'' @ fence (extension p))) content)
              ''\<newline>```\<newline>\<newline>''
          else
            put os (''### File: '' @ p @ ''\<newline>'' @ fence (extension p) @ take kMaxBytes content @
              ''\<newline>... (truncated; original '' @ show_nat (length content) @
              '' bytes, showing first 16384 bytes)\<newline>'' @ ''```\<newline>\<newline>''))"
  by (simp add: file_out_def print_file_def Let_def ifstream_open_size show_nat_kMaxBytes
      split: option.splits)

text \<open>A file of exactly the cap, and a file of cap + 1 bytes.\<close>

definition cap_file :: node where
  "cap_file = Regular \<lparr>bytes = replicate 16384 CHR ''x'', readable = True\<rparr>"

definition big_file :: node where
  "big_file = Regular \<lparr>bytes = replicate 16385 CHR ''x'', readable = True\<rparr>"

subsection \<open>The assembler\<close>

text \<open>Whatever follows only extends the buffer, so a report rendered into a good buffer
  starts with the text of the directory sections.\<close>

lemma buf_put_streambuf_ext: "\<exists>r. buf (put_streambuf os src) = buf os @ r"
  by (simp add: put_streambuf_def)

lemma buf_put_ext: "\<exists>r. buf (put os s) = buf os @ r"
  by (simp add: put_def)

lemma buf_file_out_ext: "\<exists>r. buf (file_out os p n) = buf os @ r"
proof (cases "ifstream_open n")
  case None
  then show ?thesis by (simp add: file_out_eq buf_put_ext)
next
  case (Some content)
  obtain r1 where r1: "buf (put os (''### File: '' @ p @ ''\<newline>'' @ fence (extension p))) = buf os @ r1"
    using buf_put_ext by blast
  obtain r2 where r2: "buf (put_streambuf (put os (''### File: '' @ p @ ''\<newline>'' @ fence (extension p))) content)
      = buf (put os (''### File: '' @ p @ ''\<newline>'' @ fence (extension p))) @ r2"
    using buf_put_streambuf_ext by blast
  obtain r3 where r3: "buf (put (put_streambuf (put os (''### File: '' @ p @ ''\<newline>'' @ fence (extension p))) content) ''\<newline>```\<newline>\<newline>'')
      = buf (put_streambuf (put os (''### File: '' @ p @ ''\<newline>'' @ fence (extension p))) content) @ r3"
    using buf_put_ext by blast
  show ?thesis
  proof (cases "length content \<le> kMaxBytes")
    case True
    with Some r1 r2 r3 show ?thesis by (simp add: file_out_eq)
  next
    case False
    with Some show ?thesis by (simp add: file_out_eq buf_put_ext)
  qed
qed

lemma buf_files_out_ext: "\<exists>r. buf (files_out os files) = buf os @ r"
proof (induction files arbitrary: os)
  case Nil
  then show ?case by simp
next
  case (Cons f files)
  obtain r1 where "buf (file_out os (fst f) (snd f)) = buf os @ r1"
    using buf_file_out_ext by blast
  moreover obtain r2 where
    "buf (files_out (file_out os (fst f) (snd f)) files) = buf (file_out os (fst f) (snd f)) @ r2"
    using Cons.IH by blast
  ultimately show ?case by (simp add: files_out_def)
qed

lemma print_dir_starts:
  assumes "\<not> failbit (out st)" and "can_search (lookup w p)"
  shows "\<exists>st' r. print_dir w st p = Inr st' \<and> buf (out st') = buf (out st) @ dir_text w p @ r"
proof -
  obtain r where "buf (files_out (put (out st) (dir_text w p)) (file_list p (lookup w p)))
      = buf (put (out st) (dir_text w p)) @ r"
    using buf_files_out_ext by blast
  with assms show ?thesis by (simp add: print_dir_split buf_put)
qed

lemma print_dir_throws:
  "\<not> can_search (lookup w p) \<Longrightarrow>
   print_dir w st p = Inl (Filesystem_error (path_append p ''.git''), cerr st)"
  by (simp add: print_dir_split)

text \<open>A directory named \<^verbatim>\<open>.git\<close> stands directly under the root, whether or not the
  entries of the root can be enumerated.\<close>

definition git_dir_present :: "node \<Rightarrow> bool" where
  "git_dir_present root =
     list_ex (\<lambda>e. fst e = ''.git'' \<and> fs_is_directory (snd e)) (entries_of root)"

lemma git_found_iff:
  assumes "distinct (map fst (entries_of root))" and "can_search root"
  shows "git_found root \<longleftrightarrow> git_dir_present root"
proof
  assume "git_found root"
  with assms(2) obtain c where "map_of (entries_of root) ''.git'' = Some c" "fs_is_directory c"
    by (auto simp: git_found_def stat_child_def fs_is_directory_def split: option.splits)
  then have "(''.git'', c) \<in> set (entries_of root)" "fs_is_directory c"
    by (auto dest: map_of_SomeD)
  then show "git_dir_present root"
    unfolding git_dir_present_def list_ex_iff by force
next
  assume "git_dir_present root"
  then obtain c where "(''.git'', c) \<in> set (entries_of root)" "fs_is_directory c"
    by (auto simp: git_dir_present_def list_ex_iff)
  with assms(1) have "map_of (entries_of root) ''.git'' = Some c" "fs_is_directory c"
    by simp_all
  with assms(2) show "git_found root"
    by (simp add: git_found_def stat_child_def fs_is_directory_exists)
qed

subsection \<open>Concrete runs\<close>

text \<open>A directory with two small files (enumerated in the order \<^verbatim>\<open>b.txt\<close>,
  \<^verbatim>\<open>a.txt\<close>), the same directory with \<^verbatim>\<open>a.txt\<close> empty, a directory holding a
  \<^verbatim>\<open>.git\<close> directory (also reached through a path with a repeated separator), and two
  directories that cannot be read: \<^verbatim>\<open>vault\<close> of mode \<^verbatim>\<open>--x\<close> and \<^verbatim>\<open>sealed\<close> of mode
  \<^verbatim>\<open>---\<close>, each holding a \<^verbatim>\<open>.git\<close> directory.\<close>

definition plain_world :: world where
  "plain_world =
     \<lparr>cwd = ''/home/u'',
      lookup = (\<lambda>p. if p = ''.'' then
                       Directory [(''b.txt'', Regular \<lparr>bytes = ''beta\<newline>'', readable = True\<rparr>),
                                  (''a.txt'', Regular \<lparr>bytes = ''alpha\<newline>'', readable = True\<rparr>)]
                     else Missing)\<rparr>"

definition touched_world :: world where
  "touched_world =
     \<lparr>cwd = ''/home/u'',
      lookup = (\<lambda>p. if p = ''.'' then
                       Directory [(''b.txt'', Regular \<lparr>bytes = ''beta\<newline>'', readable = True\<rparr>),
                                  (''a.txt'', Regular \<lparr>bytes = [], readable = True\<rparr>)]
                     else Missing)\<rparr>"

definition repo_world :: world where
  "repo_world =
     \<lparr>cwd = ''/home/u'',
      lookup = (\<lambda>p. if p = ''proj'' \<or> p = ''/home/u//proj'' then
                       Directory [(''main.cpp'', Regular \<lparr>bytes = ''int main() {}\<newline>'', readable = True\<rparr>),
                                  (''.git'', Directory [])]
                     else Missing)\<rparr>"

definition locked_world :: world where
  "locked_world =
     \<lparr>cwd = ''/home/u'',
      lookup = (\<lambda>p. if p = ''vault'' then
                       Locked True [(''.git'', Directory []),
                                    (''key.txt'', Regular \<lparr>bytes = ''k'', readable = True\<rparr>)]
                     else if p = ''sealed'' then Locked False [(''.git'', Directory [])]
                     else Missing)\<rparr>"

lemmas eval_simps =
  main_def run_paths_eq path_out_def path_err_def pexists_def is_dir_def is_file_def
  fs_exists_def fs_is_directory_def fs_is_regular_file_def directory_iterator_def
  dir_text_def dir_err_def structure_text_eq entry_lines_def file_list_eq entry_files_def
  sort_entries_def files_out_def file_out_eq file_err_def ifstream_open_def kMaxBytes_def
  git_found_def stat_child_def can_search_def entries_of_def throws_def
  generic_string_def components_def absolute_def path_append_def is_absolute_def
  has_filename_def fence_def extension_def filename_def put_def put_streambuf_def
  ostringstream_def

lemma plain_world_report:
  "main plain_world [] =
     \<lparr>stdout = ''# Repository Context\<newline>\<newline>## File System Location\<newline>\<newline>/home/u/.\<newline>\<newline>'' @
               ''Not a git repository\<newline>\<newline>## Structure\<newline>```\<newline>a.txt\<newline>b.txt\<newline>```\<newline>\<newline>'' @
               ''## File Contents\<newline>\<newline>### File: ./a.txt\<newline>```\<newline>alpha\<newline>\<newline>```\<newline>\<newline>'' @
               ''### File: ./b.txt\<newline>```\<newline>beta\<newline>\<newline>```\<newline>\<newline>'',
      stderr = [], exit_code = 0\<rparr>"
  by (simp add: plain_world_def eval_simps)

text \<open>The root that can be searched but not read: \<^verbatim>\<open>.git\<close> is found although the
  enumeration is empty. The root that cannot be searched: the query of \<^verbatim>\<open>is_git_repo\<close>
  throws, and the diagnostic of an earlier target is all that the program has written.\<close>

lemma unreadable_root_report:
  "main locked_world [''vault''] =
     \<lparr>stdout = ''# Repository Context\<newline>\<newline>## File System Location\<newline>\<newline>/home/u/vault\<newline>\<newline>'' @
               ''## Git Info\<newline>\<newline>## Structure\<newline>```\<newline>```\<newline>\<newline>'',
      stderr = [], exit_code = 0\<rparr>"
  by (simp add: locked_world_def eval_simps)

lemma unsearchable_root_aborts:
  "main locked_world [''ghost'', ''sealed'', ''vault''] =
     \<lparr>stdout = [],
      stderr = ''ghostis not a valid directory or file\<newline>'' @
               terminate_message (Filesystem_error ''sealed/.git''),
      exit_code = 134\<rparr>"
  by (simp add: locked_world_def eval_simps)

subsection \<open>Entries are visited in the order of their names\<close>

lemma sort_entries_order:
  assumes "(a, x) \<in> set es" and "(b, y) \<in> set es" and "a < b"
  shows "\<exists>xs ys zs. sort_entries es = xs @ (a, x) # ys @ (b, y) # zs"
proof -
  have srt: "sorted (map fst (sort_entries es))"
    by (simp add: sort_entries_def)
  from assms(1) have "(a, x) \<in> set (sort_entries es)"
    by (simp add: sort_entries_def)
  then obtain xs rest where split: "sort_entries es = xs @ (a, x) # rest"
    by (auto dest: split_list)
  from assms(2) have "(b, y) \<in> set (sort_entries es)"
    by (simp add: sort_entries_def)
  moreover have "(b, y) \<notin> set xs"
  proof
    assume "(b, y) \<in> set xs"
    then have "b \<in> set (map fst xs)" by force
    with srt split have "b \<le> a" by (auto simp: sorted_append)
    with assms(3) show False by simp
  qed
  moreover from assms(3) have "(b, y) \<noteq> (a, x)" by auto
  ultimately have "(b, y) \<in> set rest" using split by auto
  then obtain ys zs where "rest = ys @ (b, y) # zs"
    by (auto dest: split_list)
  with split show ?thesis by blast
qed

lemma walker_name_order:
  assumes "(a, x) \<in> set es" and "(b, y) \<in> set es" and "a < b"
    and "fs_is_regular_file x" and "fs_is_regular_file y"
  shows "(\<exists>fs gs hs. file_list root (Directory es) =
            fs @ (path_append root a, x) # gs @ (path_append root b, y) # hs)
       \<and> (\<exists>s t u. structure_text root (Directory es) depth =
            s @ (replicate (depth * 2) CHR '' '' @ a @ ''\<newline>'') @ t @
                (replicate (depth * 2) CHR '' '' @ b @ ''\<newline>'') @ u)"
proof -
  obtain xs ys zs where srt: "sort_entries es = xs @ (a, x) # ys @ (b, y) # zs"
    using sort_entries_order [OF assms(1-3)] by blast
  have d: "fs_is_directory (Directory es)" "directory_iterator (Directory es) = es"
    by (simp_all add: fs_is_directory_def directory_iterator_def)
  have ex: "entry_files root (a, x) = [(path_append root a, x)]"
    and ey: "entry_files root (b, y) = [(path_append root b, y)]"
    using assms(4,5) by (auto simp: entry_files_def dest: not_dir_and_file)
  have lx: "entry_lines root depth (a, x) = replicate (depth * 2) CHR '' '' @ a @ ''\<newline>''"
    and ly: "entry_lines root depth (b, y) = replicate (depth * 2) CHR '' '' @ b @ ''\<newline>''"
    using assms(4,5) by (auto simp: entry_lines_def dest: not_dir_and_file)
  have "file_list root (Directory es) =
      concat (map (entry_files root) xs) @ (path_append root a, x) #
      concat (map (entry_files root) ys) @ (path_append root b, y) #
      concat (map (entry_files root) zs)"
    by (simp add: file_list_eq d srt ex ey)
  moreover have "structure_text root (Directory es) depth =
      concat (map (entry_lines root depth) xs) @ (replicate (depth * 2) CHR '' '' @ a @ ''\<newline>'') @
      concat (map (entry_lines root depth) ys) @ (replicate (depth * 2) CHR '' '' @ b @ ''\<newline>'') @
      concat (map (entry_lines root depth) zs)"
    by (simp add: structure_text_eq d srt lx ly)
  ultimately show ?thesis by blast
qed

subsection \<open>The tree without the entries the walker passes over\<close>

text \<open>An entry is passed over when its status, which follows symbolic links, is neither
  a directory nor a regular file: a device, a socket, a FIFO, a dangling link. \<open>prune\<close>
  removes these entries at every level of a tree.\<close>

definition ignored :: "node \<Rightarrow> bool" where
  "ignored c = (\<not> fs_is_directory c \<and> \<not> fs_is_regular_file c)"

function prune :: "node \<Rightarrow> node" where
  "prune (Directory es) =
     Directory (map (\<lambda>e. (fst e, prune (snd e))) (filter (\<lambda>e. \<not> ignored (snd e)) es))"
| "prune (Symlink t) = Symlink (prune t)"
| "prune (Locked searchable es) = Locked searchable es"
| "prune (Regular f) = Regular f"
| "prune Missing = Missing"
| "prune Other = Other"
  by pat_completeness auto
termination
  apply (relation "measure size")
    apply simp
   apply (auto dest: size_entry size_entry_locked)
  done

lemma status_prune_regular: "fs_is_regular_file n \<Longrightarrow> prune n = n"
  by (induction n rule: status.induct) (auto simp: fs_is_regular_file_def)

lemma prune_kind:
  "fs_is_directory (prune n) = fs_is_directory n"
  "fs_is_regular_file (prune n) = fs_is_regular_file n"
  by (induction n rule: status.induct) (auto simp: fs_is_directory_def fs_is_regular_file_def)

lemma directory_iterator_prune:
  "directory_iterator (prune n) =
     map (\<lambda>e. (fst e, prune (snd e))) (filter (\<lambda>e. \<not> ignored (snd e)) (directory_iterator n))"
  by (induction n rule: status.induct) (auto simp: directory_iterator_def)

lemma insort_key_map_snd:
  "insort_key fst (fst e, g (snd e)) (map (\<lambda>e. (fst e, g (snd e))) xs) =
     map (\<lambda>e. (fst e, g (snd e))) (insort_key fst e xs)"
  by (induction xs) auto

lemma sort_entries_map_snd:
  "sort_entries (map (\<lambda>e. (fst e, g (snd e))) xs) = map (\<lambda>e. (fst e, g (snd e))) (sort_entries xs)"
  unfolding sort_entries_def by (induction xs) (simp_all add: insort_key_map_snd)

lemma sort_entries_filter: "sort_entries (filter P xs) = filter P (sort_entries xs)"
  unfolding sort_entries_def by (simp add: filter_sort)

lemma concat_map_filter_Nil:
  "(\<And>x. x \<in> set xs \<Longrightarrow> \<not> P x \<Longrightarrow> f x = []) \<Longrightarrow>
   concat (map f (filter P xs)) = concat (map f xs)"
  by (induction xs) auto

lemma prune_walker:
  "structure_text root (prune n) depth = structure_text root n depth \<and>
   file_list root (prune n) = file_list root n"
proof (induction n arbitrary: root depth rule: measure_induct_rule [of size])
  case (less n)
  show ?case
  proof (cases "fs_is_directory n")
    case False
    then show ?thesis
      by (cases "fs_is_regular_file n")
        (simp_all add: structure_text_eq file_list_eq prune_kind status_prune_regular)
  next
    case True
    let ?S = "sort_entries (directory_iterator n)"
    let ?keep = "\<lambda>e. \<not> ignored (snd e)"
    let ?pr = "\<lambda>e. (fst e, prune (snd e))"
    have sorted_pruned: "sort_entries (directory_iterator (prune n)) = map ?pr (filter ?keep ?S)"
      by (simp add: directory_iterator_prune sort_entries_map_snd sort_entries_filter)
    have small: "size (snd e) < size n" if "e \<in> set ?S" for e
      using that by (simp add: sort_entries_def entry_size)
    have lines: "entry_lines root depth (?pr e) = entry_lines root depth e" if "e \<in> set ?S" for e
      using less.IH [OF small [OF that]] by (simp add: entry_lines_def prune_kind)
    have files: "entry_files root (?pr e) = entry_files root e" if "e \<in> set ?S" for e
      using less.IH [OF small [OF that]]
      by (auto simp: entry_files_def prune_kind status_prune_regular)
    have "map (entry_lines root depth) (map ?pr (filter ?keep ?S)) =
          map (entry_lines root depth) (filter ?keep ?S)"
      unfolding map_map comp_def by (rule map_cong [OF refl]) (simp add: lines)
    then have "concat (map (entry_lines root depth) (map ?pr (filter ?keep ?S))) =
          concat (map (entry_lines root depth) (filter ?keep ?S))"
      by (rule arg_cong)
    also have "\<dots> = concat (map (entry_lines root depth) ?S)"
      by (rule concat_map_filter_Nil) (simp add: entry_lines_def ignored_def)
    finally have l: "concat (map (entry_lines root depth) (map ?pr (filter ?keep ?S))) =
          concat (map (entry_lines root depth) ?S)" .
    have "map (entry_files root) (map ?pr (filter ?keep ?S)) =
          map (entry_files root) (filter ?keep ?S)"
      unfolding map_map comp_def by (rule map_cong [OF refl]) (simp add: files)
    then have "concat (map (entry_files root) (map ?pr (filter ?keep ?S))) =
          concat (map (entry_files root) (filter ?keep ?S))"
      by (rule arg_cong)
    also have "\<dots> = concat (map (entry_files root) ?S)"
      by (rule concat_map_filter_Nil) (simp add: entry_files_def ignored_def)
    finally have f: "concat (map (entry_files root) (map ?pr (filter ?keep ?S))) =
          concat (map (entry_files root) ?S)" .
    from True l f show ?thesis
      by (simp add: structure_text_eq file_list_eq prune_kind sorted_pruned)
  qed
qed

lemma regular_entry_listed:
  assumes "(name, c) \<in> set es" and "fs_is_regular_file c"
  shows "(path_append root name, c) \<in> set (file_list root (Directory es))"
proof -
  from assms(1) have mem: "(name, c) \<in> set (sort_entries es)"
    by (simp add: sort_entries_def)
  from assms(2) have "entry_files root (name, c) = [(path_append root name, c)]"
    by (auto simp: entry_files_def dest: not_dir_and_file)
  then have "(path_append root name, c) \<in> set (entry_files root (name, c))"
    by simp
  with mem have "(path_append root name, c) \<in> set (concat (map (entry_files root) (sort_entries es)))"
    unfolding set_concat set_map by blast
  moreover have "file_list root (Directory es) = concat (map (entry_files root) (sort_entries es))"
    by (simp add: file_list_eq fs_is_directory_def directory_iterator_def)
  ultimately show ?thesis by simp
qed

text \<open>A directory with a device, a symbolic link to a regular file and a dangling link.\<close>

definition linked_tree :: node where
  "linked_tree =
     Directory [(''tty'', Other),
                (''link'', Symlink (Regular \<lparr>bytes = ''x'', readable = True\<rparr>)),
                (''gone'', Symlink Missing)]"

subsection \<open>The tree with every symbolic link replaced by what it points to\<close>

text \<open>\<open>deref\<close> replaces the symbolic links among the entries that the walker can reach
  by their targets (a dangling link by \<open>Missing\<close>). The walker and the renderer follow
  links in every query, so they cannot tell a link from its target.\<close>

function deref :: "node \<Rightarrow> node" where
  "deref (Symlink t) = deref t"
| "deref (Directory es) = Directory (map (\<lambda>e. (fst e, deref (snd e))) es)"
| "deref (Locked searchable es) = Locked searchable es"
| "deref (Regular f) = Regular f"
| "deref Missing = Missing"
| "deref Other = Other"
  by pat_completeness auto
termination
  apply (relation "measure size")
    apply simp
   apply (auto dest: size_entry)
  done

lemma status_deref: "status (deref n) = deref n"
  by (induction n rule: status.induct) simp_all

lemma deref_status: "deref (status n) = deref n"
  by (induction n rule: status.induct) simp_all

lemma deref_kind:
  "fs_is_directory (deref n) = fs_is_directory n"
  "fs_is_regular_file (deref n) = fs_is_regular_file n"
  by (induction n rule: status.induct) (auto simp: fs_is_directory_def fs_is_regular_file_def)

lemma directory_iterator_deref:
  "directory_iterator (deref n) = map (\<lambda>e. (fst e, deref (snd e))) (directory_iterator n)"
  by (induction n rule: status.induct) (auto simp: directory_iterator_def)

lemma file_size_deref: "file_size (deref n) = file_size n"
  by (induction n rule: status.induct) (auto simp: file_size_def)

lemma ifstream_open_deref: "ifstream_open (deref n) = ifstream_open n"
  by (induction n rule: status.induct) (auto simp: ifstream_open_def)

lemma print_file_deref: "print_file st p (deref n) = print_file st p n"
  by (simp add: print_file_def file_size_deref ifstream_open_deref)

lemma deref_walker:
  "structure_text root (deref n) depth = structure_text root n depth \<and>
   file_list root (deref n) = map (\<lambda>f. (fst f, deref (snd f))) (file_list root n)"
proof (induction n arbitrary: root depth rule: measure_induct_rule [of size])
  case (less n)
  show ?case
  proof (cases "fs_is_directory n")
    case False
    then show ?thesis
      by (cases "fs_is_regular_file n") (simp_all add: structure_text_eq file_list_eq deref_kind)
  next
    case True
    let ?S = "sort_entries (directory_iterator n)"
    let ?d = "\<lambda>e. (fst e, deref (snd e))"
    let ?F = "\<lambda>f. (fst f, deref (snd f))"
    have sorted_deref: "sort_entries (directory_iterator (deref n)) = map ?d ?S"
      by (simp add: directory_iterator_deref sort_entries_map_snd)
    have small: "size (snd e) < size n" if "e \<in> set ?S" for e
      using that by (simp add: sort_entries_def entry_size)
    have lines: "entry_lines root depth (?d e) = entry_lines root depth e" if "e \<in> set ?S" for e
      using less.IH [OF small [OF that]] by (simp add: entry_lines_def deref_kind)
    have files: "entry_files root (?d e) = map ?F (entry_files root e)" if "e \<in> set ?S" for e
      using less.IH [OF small [OF that]] by (simp add: entry_files_def deref_kind)
    have "map (entry_lines root depth) (map ?d ?S) = map (entry_lines root depth) ?S"
      unfolding map_map comp_def by (rule map_cong [OF refl]) (simp add: lines)
    then have l: "concat (map (entry_lines root depth) (map ?d ?S)) =
        concat (map (entry_lines root depth) ?S)"
      by (rule arg_cong)
    have "map (entry_files root) (map ?d ?S) = map (\<lambda>e. map ?F (entry_files root e)) ?S"
      unfolding map_map comp_def by (rule map_cong [OF refl]) (simp add: files)
    then have "concat (map (entry_files root) (map ?d ?S)) =
        concat (map (\<lambda>e. map ?F (entry_files root e)) ?S)"
      by (rule arg_cong)
    also have "\<dots> = map ?F (concat (map (entry_files root) ?S))"
      by (simp add: map_concat comp_def)
    finally have f: "concat (map (entry_files root) (map ?d ?S)) =
        map ?F (concat (map (entry_files root) ?S))" .
    from True l f show ?thesis
      by (simp add: structure_text_eq file_list_eq deref_kind sorted_deref)
  qed
qed

text \<open>What the walker does at a directory, entry by entry: a directory (also one behind a
  link) gives its name with the separator marker and its own listing, a regular file
  (also one behind a link) gives its name and its path, anything else gives nothing.\<close>

lemma collect_files_directory:
  "collect_files root (Directory es) files =
     files @ concat (map (\<lambda>e.
       if fs_is_directory (snd e) then collect_files (path_append root (fst e)) (snd e) []
       else if fs_is_regular_file (snd e) then [(path_append root (fst e), snd e)]
       else []) (sort_entries es))"
proof -
  have "entry_files root = (\<lambda>e.
       if fs_is_directory (snd e) then collect_files (path_append root (fst e)) (snd e) []
       else if fs_is_regular_file (snd e) then [(path_append root (fst e), snd e)]
       else [])"
    by (rule ext) (simp add: entry_files_def file_list_def)
  then show ?thesis
    by (simp add: collect_files_append [of root "Directory es"] file_list_eq
        fs_is_directory_def directory_iterator_def)
qed

lemma print_structure_directory:
  "print_structure os root (Directory es) depth =
     put os (concat (map (\<lambda>e.
       if fs_is_directory (snd e) then
         replicate (depth * 2) CHR '' '' @ fst e @ ''/\<newline>'' @
         buf (print_structure ostringstream (path_append root (fst e)) (snd e) (depth + 1))
       else if fs_is_regular_file (snd e) then
         replicate (depth * 2) CHR '' '' @ fst e @ ''\<newline>''
       else []) (sort_entries es)))"
proof -
  have "entry_lines root depth = (\<lambda>e.
       if fs_is_directory (snd e) then
         replicate (depth * 2) CHR '' '' @ fst e @ ''/\<newline>'' @
         buf (print_structure ostringstream (path_append root (fst e)) (snd e) (depth + 1))
       else if fs_is_regular_file (snd e) then
         replicate (depth * 2) CHR '' '' @ fst e @ ''\<newline>''
       else [])"
    by (rule ext) (simp add: entry_lines_def structure_text_def)
  then show ?thesis
    by (simp add: print_structure_put [of os root "Directory es"] structure_text_eq
        fs_is_directory_def directory_iterator_def)
qed

text \<open>A directory with a device, a link to a directory, a link to a regular file and a
  dangling link.\<close>

definition linked_dir_tree :: node where
  "linked_dir_tree =
     Directory [(''tty'', Other),
                (''src'', Symlink (Directory [(''m.c'', Regular \<lparr>bytes = ''x'', readable = True\<rparr>)])),
                (''link'', Symlink (Regular \<lparr>bytes = ''x'', readable = True\<rparr>)),
                (''gone'', Symlink Missing)]"

lemma linked_dir_tree_walk:
  "collect_files ''.'' linked_dir_tree [] =
     [(''./link'', Symlink (Regular \<lparr>bytes = ''x'', readable = True\<rparr>)),
      (''./src/m.c'', Regular \<lparr>bytes = ''x'', readable = True\<rparr>)] \<and>
   buf (print_structure ostringstream ''.'' linked_dir_tree 0) = ''link\<newline>src/\<newline>  m.c\<newline>''"
  by (simp add: linked_dir_tree_def file_list_def [symmetric] print_structure_put file_list_eq
      structure_text_eq entry_files_def entry_lines_def sort_entries_def directory_iterator_def
      fs_is_directory_def fs_is_regular_file_def path_append_def is_absolute_def has_filename_def
      numeral_2_eq_2)

subsection \<open>The same tree, enumerated in another order\<close>

text \<open>
  The one thing a run does not control is the order in which \<^verbatim>\<open>directory_iterator\<close>
  enumerates a directory. In a file system the names in one directory are distinct
  (\<open>well_formed\<close>). Two trees are the same tree (\<open>same_tree\<close>) when they hold the same
  names at every level, with the same files, the same permissions and the same subtrees
  under them; the order of the entries is free.
\<close>

function well_formed :: "node \<Rightarrow> bool" where
  "well_formed (Directory es) = (distinct (map fst es) \<and> (\<forall>e \<in> set es. well_formed (snd e)))"
| "well_formed (Locked searchable es) =
     (distinct (map fst es) \<and> (\<forall>e \<in> set es. well_formed (snd e)))"
| "well_formed (Symlink t) = well_formed t"
| "well_formed (Regular f) = True"
| "well_formed Missing = True"
| "well_formed Other = True"
  by pat_completeness auto
termination
  apply (relation "measure size")
    apply simp
   apply (auto dest: size_entry size_entry_locked)
  done

function (sequential) same_tree :: "node \<Rightarrow> node \<Rightarrow> bool" where
  "same_tree (Directory es) (Directory es') =
     (set (map fst es) = set (map fst es') \<and>
      (\<forall>e \<in> set es. \<forall>e' \<in> set es'. fst e = fst e' \<longrightarrow> same_tree (snd e) (snd e')))"
| "same_tree (Locked searchable es) (Locked searchable' es') =
     (searchable = searchable' \<and> set (map fst es) = set (map fst es') \<and>
      (\<forall>e \<in> set es. \<forall>e' \<in> set es'. fst e = fst e' \<longrightarrow> same_tree (snd e) (snd e')))"
| "same_tree (Symlink t) (Symlink t') = same_tree t t'"
| "same_tree (Regular f) (Regular f') = (f = f')"
| "same_tree Missing Missing = True"
| "same_tree Other Other = True"
| "same_tree n n' = False"
  by pat_completeness auto
termination
  apply (relation "measure (\<lambda>(n, n'). size n)")
    apply simp
   apply (auto dest: size_entry size_entry_locked)
  done

lemma same_tree_kind:
  "same_tree n n' \<Longrightarrow>
   fs_is_directory n = fs_is_directory n' \<and> fs_is_regular_file n = fs_is_regular_file n' \<and>
   fs_exists n = fs_exists n'"
  by (induction n n' rule: same_tree.induct)
    (simp_all add: fs_is_directory_def fs_is_regular_file_def fs_exists_def)

lemma same_tree_regular: "same_tree n n' \<Longrightarrow> fs_is_regular_file n \<Longrightarrow> n = n'"
  by (induction n n' rule: same_tree.induct) (simp_all add: fs_is_regular_file_def)

lemma same_tree_entries:
  "same_tree n n' \<Longrightarrow>
   set (map fst (directory_iterator n)) = set (map fst (directory_iterator n')) \<and>
   (\<forall>e \<in> set (directory_iterator n). \<forall>e' \<in> set (directory_iterator n').
      fst e = fst e' \<longrightarrow> same_tree (snd e) (snd e'))"
  by (induction n n' rule: same_tree.induct) (simp_all add: directory_iterator_def)

lemma well_formed_entries:
  "well_formed n \<Longrightarrow>
   distinct (map fst (directory_iterator n)) \<and>
   (\<forall>e \<in> set (directory_iterator n). well_formed (snd e))"
  by (induction n rule: well_formed.induct) (simp_all add: directory_iterator_def)

lemma same_tree_entries_of:
  "same_tree n n' \<Longrightarrow>
   set (map fst (entries_of n)) = set (map fst (entries_of n')) \<and>
   (\<forall>e \<in> set (entries_of n). \<forall>e' \<in> set (entries_of n').
      fst e = fst e' \<longrightarrow> same_tree (snd e) (snd e'))"
  by (induction n n' rule: same_tree.induct) (simp_all add: entries_of_def)

lemma same_tree_can_search: "same_tree n n' \<Longrightarrow> can_search n = can_search n'"
  by (induction n n' rule: same_tree.induct) (simp_all add: can_search_def)

lemma well_formed_entries_of:
  "well_formed n \<Longrightarrow>
   distinct (map fst (entries_of n)) \<and> (\<forall>e \<in> set (entries_of n). well_formed (snd e))"
  by (induction n rule: well_formed.induct) (simp_all add: entries_of_def)

lemma sort_entries_names:
  assumes "distinct (map fst es)" and "distinct (map fst es')"
    and "set (map fst es) = set (map fst es')"
  shows "map fst (sort_entries es) = map fst (sort_entries es')"
proof (rule sorted_distinct_set_unique)
  show "sorted (map fst (sort_entries es))" "sorted (map fst (sort_entries es'))"
    by (simp_all add: sort_entries_def)
  show "distinct (map fst (sort_entries es))"
    using assms(1) by (simp add: sort_entries_def distinct_map)
  show "distinct (map fst (sort_entries es'))"
    using assms(2) by (simp add: sort_entries_def distinct_map)
  show "set (map fst (sort_entries es)) = set (map fst (sort_entries es'))"
    using assms(3) by (simp add: sort_entries_def)
qed

lemma sort_entries_related:
  assumes "distinct (map fst es)" and "distinct (map fst es')"
    and "set (map fst es) = set (map fst es')"
  shows "list_all2 (\<lambda>e e'. fst e = fst e' \<and> e \<in> set es \<and> e' \<in> set es')
           (sort_entries es) (sort_entries es')"
proof -
  have names: "map fst (sort_entries es) = map fst (sort_entries es')"
    using assms by (rule sort_entries_names)
  then have len: "length (sort_entries es) = length (sort_entries es')"
    by (metis length_map)
  show ?thesis
  proof (rule list_all2_all_nthI [OF len])
    fix i assume i: "i < length (sort_entries es)"
    with len have i': "i < length (sort_entries es')" by simp
    from names have "map fst (sort_entries es) ! i = map fst (sort_entries es') ! i" by simp
    with i i' have "fst (sort_entries es ! i) = fst (sort_entries es' ! i)" by simp
    moreover from i have "sort_entries es ! i \<in> set es"
      by (metis nth_mem set_sort sort_entries_def)
    moreover from i' have "sort_entries es' ! i \<in> set es'"
      by (metis nth_mem set_sort sort_entries_def)
    ultimately show "fst (sort_entries es ! i) = fst (sort_entries es' ! i) \<and>
        sort_entries es ! i \<in> set es \<and> sort_entries es' ! i \<in> set es'"
      by simp
  qed
qed

lemma map_eq_list_all2:
  "list_all2 R xs ys \<Longrightarrow> (\<And>x y. R x y \<Longrightarrow> f x = f y) \<Longrightarrow> map f xs = map f ys"
  by (induction rule: list_all2_induct) auto

lemma same_tree_walker:
  "well_formed n \<Longrightarrow> well_formed n' \<Longrightarrow> same_tree n n' \<Longrightarrow>
   structure_text root n depth = structure_text root n' depth \<and>
   file_list root n = file_list root n'"
proof (induction n arbitrary: n' root depth rule: measure_induct_rule [of size])
  case (less n)
  note kind = same_tree_kind [OF less.prems(3)]
  show ?case
  proof (cases "fs_is_directory n")
    case False
    with kind have nd: "\<not> fs_is_directory n'" by simp
    show ?thesis
    proof (cases "fs_is_regular_file n")
      case True
      with less.prems(3) have "n = n'" by (simp add: same_tree_regular)
      then show ?thesis by simp
    next
      case nf: False
      with kind have "\<not> fs_is_regular_file n'" by simp
      with False nd nf show ?thesis by (simp add: structure_text_eq file_list_eq)
    qed
  next
    case True
    with kind have d': "fs_is_directory n'" by simp
    let ?es = "directory_iterator n" and ?es' = "directory_iterator n'"
    note wf = well_formed_entries [OF less.prems(1)]
    note wf' = well_formed_entries [OF less.prems(2)]
    note st = same_tree_entries [OF less.prems(3)]
    have rel: "list_all2 (\<lambda>e e'. fst e = fst e' \<and> e \<in> set ?es \<and> e' \<in> set ?es')
        (sort_entries ?es) (sort_entries ?es')"
      using wf wf' st by (intro sort_entries_related) simp_all
    have child: "structure_text r (snd e) d = structure_text r (snd e') d \<and>
        file_list r (snd e) = file_list r (snd e')"
      if "fst e = fst e' \<and> e \<in> set ?es \<and> e' \<in> set ?es'" for e e' r d
    proof (rule less.IH)
      from that show "size (snd e) < size n" by (simp add: entry_size)
      from that wf show "well_formed (snd e)" by simp
      from that wf' show "well_formed (snd e')" by simp
      from that st show "same_tree (snd e) (snd e')" by blast
    qed
    have ckind: "fs_is_directory (snd e) = fs_is_directory (snd e') \<and>
        fs_is_regular_file (snd e) = fs_is_regular_file (snd e')"
      and creg: "fs_is_regular_file (snd e) \<Longrightarrow> snd e = snd e'"
      if "fst e = fst e' \<and> e \<in> set ?es \<and> e' \<in> set ?es'" for e e'
    proof -
      from that st have s: "same_tree (snd e) (snd e')" by blast
      from same_tree_kind [OF s]
      show "fs_is_directory (snd e) = fs_is_directory (snd e') \<and>
        fs_is_regular_file (snd e) = fs_is_regular_file (snd e')" by simp
      show "fs_is_regular_file (snd e) \<Longrightarrow> snd e = snd e'"
        using s by (rule same_tree_regular)
    qed
    have lines: "map (entry_lines root depth) (sort_entries ?es) =
        map (entry_lines root depth) (sort_entries ?es')"
    proof (rule map_eq_list_all2 [OF rel])
      fix e e' assume r: "fst e = fst e' \<and> e \<in> set ?es \<and> e' \<in> set ?es'"
      show "entry_lines root depth e = entry_lines root depth e'"
        using r child [OF r] ckind [OF r] by (simp add: entry_lines_def)
    qed
    have files: "map (entry_files root) (sort_entries ?es) =
        map (entry_files root) (sort_entries ?es')"
    proof (rule map_eq_list_all2 [OF rel])
      fix e e' assume r: "fst e = fst e' \<and> e \<in> set ?es \<and> e' \<in> set ?es'"
      show "entry_files root e = entry_files root e'"
        using r child [OF r] ckind [OF r] creg [OF r] by (auto simp: entry_files_def)
    qed
    from True d' lines files show ?thesis
      by (simp add: structure_text_eq file_list_eq)
  qed
qed

lemma same_tree_git:
  assumes "well_formed n" and "well_formed n'" and "same_tree n n'"
  shows "git_found n = git_found n'"
proof (cases "can_search n")
  case False
  with same_tree_can_search [OF assms(3)] show ?thesis
    by (simp add: git_found_def stat_child_def)
next
  case True
  with same_tree_can_search [OF assms(3)] have search': "can_search n'" by simp
  note wf = well_formed_entries_of [OF assms(1)]
  note wf' = well_formed_entries_of [OF assms(2)]
  note st = same_tree_entries_of [OF assms(3)]
  have one: "git_dir_present m'" if "git_dir_present m"
    and names: "set (map fst (entries_of m)) = set (map fst (entries_of m'))"
    and kids: "\<forall>e \<in> set (entries_of m). \<forall>e' \<in> set (entries_of m').
      fst e = fst e' \<longrightarrow> fs_is_directory (snd e) = fs_is_directory (snd e')" for m m'
  proof -
    from that(1) obtain e where e: "e \<in> set (entries_of m)" "fst e = ''.git''"
      "fs_is_directory (snd e)"
      by (auto simp: git_dir_present_def list_ex_iff)
    then have "''.git'' \<in> set (map fst (entries_of m))" by force
    with names obtain e' where e': "e' \<in> set (entries_of m')" "fst e' = ''.git''"
      by auto
    with e kids have "fs_is_directory (snd e')" by metis
    with e' show ?thesis by (auto simp: git_dir_present_def list_ex_iff)
  qed
  have k: "\<forall>e \<in> set (entries_of n). \<forall>e' \<in> set (entries_of n').
      fst e = fst e' \<longrightarrow> fs_is_directory (snd e) = fs_is_directory (snd e')"
    using st same_tree_kind by blast
  then have k': "\<forall>e \<in> set (entries_of n'). \<forall>e' \<in> set (entries_of n).
      fst e = fst e' \<longrightarrow> fs_is_directory (snd e) = fs_is_directory (snd e')"
    by metis
  have "git_dir_present n = git_dir_present n'"
    using one [of n n'] one [of n' n] st k k' by blast
  with wf wf' True search' show ?thesis by (simp add: git_found_iff)
qed

lemma same_tree_target:
  assumes "cwd w = cwd w'"
    and "well_formed (lookup w p)" and "well_formed (lookup w' p)"
    and "same_tree (lookup w p) (lookup w' p)"
  shows "path_out w p = path_out w' p \<and> path_err w p = path_err w' p \<and>
         throws w p = throws w' p"
proof -
  note kind = same_tree_kind [OF assms(4)]
  note walk = same_tree_walker [OF assms(2-4)]
  have git: "git_found (lookup w p) = git_found (lookup w' p)"
    using assms(2-4) by (rule same_tree_git)
  have dtext: "dir_text w p = dir_text w' p"
    using assms(1) git walk by (simp add: dir_text_def)
  have err: "dir_err w p = dir_err w' p"
    using walk by (simp add: dir_err_def)
  have same_file: "is_file w p \<Longrightarrow> lookup w p = lookup w' p"
    using assms(4) by (simp add: is_file_def same_tree_regular)
  have "path_out w p os = path_out w' p os" for os
    using kind walk dtext same_file
    by (auto simp: path_out_def pexists_def is_dir_def is_file_def)
  moreover have "path_err w p = path_err w' p"
    using kind err same_file
    by (auto simp: path_err_def pexists_def is_dir_def is_file_def)
  moreover have "throws w p = throws w' p"
    using kind same_tree_can_search [OF assms(4)] by (simp add: throws_def is_dir_def)
  ultimately show ?thesis by auto
qed

lemma same_tree_run_paths:
  assumes "cwd w = cwd w'"
    and "\<forall>p \<in> set ps. well_formed (lookup w p) \<and> well_formed (lookup w' p) \<and>
           same_tree (lookup w p) (lookup w' p)"
  shows "run_paths w ps = run_paths w' ps"
proof -
  have t: "path_out w p = path_out w' p \<and> path_err w p = path_err w' p \<and>
      throws w p = throws w' p" if "p \<in> set ps" for p
    using assms that by (intro same_tree_target) simp_all
  then have out: "fold (path_out w) ps os = fold (path_out w') ps os" for os
    by (intro fold_cong) simp_all
  have err: "map (path_err w) ps = map (path_err w') ps"
    by (rule map_cong [OF refl]) (simp add: t)
  have thr: "find (throws w) ps = find (throws w') ps"
    by (rule find_cong [OF refl]) (simp add: t)
  have upto: "takeWhile (\<lambda>p. \<not> throws w p) ps = takeWhile (\<lambda>p. \<not> throws w' p) ps"
    by (rule takeWhile_cong [OF refl]) (simp add: t)
  have err_upto: "map (path_err w) (takeWhile (\<lambda>p. \<not> throws w' p) ps) =
      map (path_err w') (takeWhile (\<lambda>p. \<not> throws w' p) ps)"
    by (rule map_cong [OF refl]) (auto simp: t dest: set_takeWhileD)
  show ?thesis
    by (simp only: run_paths_eq out err thr upto err_upto)
qed

text \<open>The directory of \<open>plain_world\<close>, enumerated in the other order.\<close>

definition reordered_world :: world where
  "reordered_world =
     \<lparr>cwd = ''/home/u'',
      lookup = (\<lambda>p. if p = ''.'' then
                       Directory [(''a.txt'', Regular \<lparr>bytes = ''alpha\<newline>'', readable = True\<rparr>),
                                  (''b.txt'', Regular \<lparr>bytes = ''beta\<newline>'', readable = True\<rparr>)]
                     else Missing)\<rparr>"

subsection \<open>The canonical form of a path\<close>

text \<open>What \<^verbatim>\<open>std::filesystem::canonical\<close> returns is an absolute path with no dot and
  no dot-dot element (and no symbolic link, which the string alone cannot show). The
  source never calls it; the predicate states what claim C5 asks of the location line.\<close>

definition canonical_form :: "path \<Rightarrow> bool" where
  "canonical_form p =
     (is_absolute p \<and> ''.'' \<notin> set (components p) \<and> ''..'' \<notin> set (components p))"

section \<open>Claims\<close>

subsection \<open>C1: the cap of the File Renderer\<close>

text \<open>
  Claim C1, as the code has it. A file that opens and is not empty, rendered into a
  report buffer that is in good state: when its size is at most the cap of 16384 bytes
  (16384 included) the buffer receives the header, the opening fence, the whole content,
  a newline and the closing fence, and no truncation notice; when its size exceeds the
  cap the buffer receives exactly the first 16384 bytes, then the notice with the
  original size and the 16384 bytes shown, then the closing fence. Nothing goes to the
  error stream and the buffer stays good. A file that does not open is rendered as an
  empty fenced block, with a diagnostic on the error stream.
\<close>

theorem print_file_cap:
  assumes "\<not> failbit (out st)"
  shows "(ifstream_open n = Some content \<and> content \<noteq> [] \<longrightarrow>
           print_file st p n =
             \<lparr>out = \<lparr>buf = buf (out st) @ ''### File: '' @ p @ ''\<newline>'' @ fence (extension p) @
                           (if length content \<le> 16384 then content @ ''\<newline>''
                            else take 16384 content @ ''\<newline>... (truncated; original '' @
                                 show_nat (length content) @
                                 '' bytes, showing first 16384 bytes)\<newline>'') @
                           ''```\<newline>\<newline>'',
                     failbit = False\<rparr>,
              cerr = cerr st\<rparr>)
       \<and> (ifstream_open n = None \<longrightarrow>
           print_file st p n =
             \<lparr>out = \<lparr>buf = buf (out st) @ ''### File: '' @ p @ ''\<newline>'' @ fence (extension p) @
                           ''```\<newline>\<newline>'',
                     failbit = False\<rparr>,
              cerr = cerr st @ ''(Could not open file)\<newline>''\<rparr>)"
  using assms
  by (auto simp: print_file_split file_out_eq file_err_def put_good put_streambuf_good kMaxBytes_eq)

theorem print_file_cap_witness:
  "print_file \<lparr>out = ostringstream, cerr = []\<rparr> ''cap.txt'' cap_file =
     \<lparr>out = \<lparr>buf = ''### File: cap.txt\<newline>```\<newline>'' @ replicate 16384 CHR ''x'' @
                   ''\<newline>```\<newline>\<newline>'',
             failbit = False\<rparr>,
      cerr = []\<rparr> \<and>
   print_file \<lparr>out = ostringstream, cerr = []\<rparr> ''big.js'' big_file =
     \<lparr>out = \<lparr>buf = ''### File: big.js\<newline>```javascript\<newline>'' @ replicate 16384 CHR ''x'' @
                   ''\<newline>... (truncated; original 16385 bytes, showing first 16384 bytes)\<newline>```\<newline>\<newline>'',
             failbit = False\<rparr>,
      cerr = []\<rparr>"
proof -
  have o: "ifstream_open big_file = Some (replicate 16385 CHR ''x'')"
    and o': "ifstream_open cap_file = Some (replicate 16384 CHR ''x'')"
    by (simp_all add: ifstream_open_def big_file_def cap_file_def)
  have g: "\<not> failbit (out \<lparr>out = ostringstream, cerr = []\<rparr>)"
    by (simp add: ostringstream_def)
  have e: "fence (extension ''big.js'') = ''```javascript\<newline>''"
    and e': "fence (extension ''cap.txt'') = ''```\<newline>''"
    by (simp_all add: fence_def extension_def filename_def)
  have s: "show_nat 16385 = ''16385''"
    by (simp add: show_nat.simps digit_char_def)
  have big: "print_file \<lparr>out = ostringstream, cerr = []\<rparr> ''big.js'' big_file =
     \<lparr>out = \<lparr>buf = ''### File: big.js\<newline>```javascript\<newline>'' @ replicate 16384 CHR ''x'' @
                   ''\<newline>... (truncated; original 16385 bytes, showing first 16384 bytes)\<newline>```\<newline>\<newline>'',
             failbit = False\<rparr>,
      cerr = []\<rparr>"
    using print_file_cap [OF g, of big_file "replicate 16385 CHR ''x''" "''big.js''"] o e s
    by (simp add: ostringstream_def)
  have cap: "print_file \<lparr>out = ostringstream, cerr = []\<rparr> ''cap.txt'' cap_file =
     \<lparr>out = \<lparr>buf = ''### File: cap.txt\<newline>```\<newline>'' @ replicate 16384 CHR ''x'' @
                   ''\<newline>```\<newline>\<newline>'',
             failbit = False\<rparr>,
      cerr = []\<rparr>"
    using print_file_cap [OF g, of cap_file "replicate 16384 CHR ''x''" "''cap.txt''"] o' e'
    by (simp add: ostringstream_def)
  from cap big show ?thesis by (rule conjI)
qed

text \<open>The claim as stated, for every file rendered, fails for a file that cannot be
  opened: its size is below the cap and the fenced block is empty.\<close>

theorem unreadable_file_counterexample:
  "file_size (Regular \<lparr>bytes = ''hello'', readable = False\<rparr>) \<le> kMaxBytes \<and>
   print_file \<lparr>out = ostringstream, cerr = []\<rparr> ''secret.txt''
       (Regular \<lparr>bytes = ''hello'', readable = False\<rparr>) =
     \<lparr>out = \<lparr>buf = ''### File: secret.txt\<newline>```\<newline>```\<newline>\<newline>'', failbit = False\<rparr>,
      cerr = ''(Could not open file)\<newline>''\<rparr>"
  by (simp add: print_file_split file_out_eq file_err_def ifstream_open_def file_size_def
      kMaxBytes_def put_def ostringstream_def fence_def extension_def filename_def)

subsection \<open>C2: entries in the order of their names\<close>

text \<open>
  Claim C2 at a directory that holds an empty \<^verbatim>\<open>a.txt\<close> and a \<^verbatim>\<open>b.txt\<close>. The walker
  sorts the entries (lemmas \<open>sort_entries_order\<close> and \<open>walker_name_order\<close>): the structure
  section lists \<^verbatim>\<open>a.txt\<close> before \<^verbatim>\<open>b.txt\<close>, and the renderer is called on \<^verbatim>\<open>a.txt\<close>
  first. Rendering the empty \<^verbatim>\<open>a.txt\<close> inserts no character from its stream buffer,
  which sets \<^verbatim>\<open>failbit\<close> on the report buffer: the report ends after the opening fence
  of \<^verbatim>\<open>a.txt\<close>, and the file-contents section never lists \<^verbatim>\<open>b.txt\<close>.
\<close>

theorem empty_file_truncates_report:
  "main touched_world [] =
     \<lparr>stdout = ''# Repository Context\<newline>\<newline>## File System Location\<newline>\<newline>/home/u/.\<newline>\<newline>'' @
               ''Not a git repository\<newline>\<newline>## Structure\<newline>```\<newline>a.txt\<newline>b.txt\<newline>```\<newline>\<newline>'' @
               ''## File Contents\<newline>\<newline>### File: ./a.txt\<newline>```\<newline>'',
      stderr = [], exit_code = 0\<rparr>"
  by (simp add: touched_world_def eval_simps)

subsection \<open>C3: determinism\<close>

text \<open>
  Claim C3. Two runs with the same arguments and the same current directory, in which
  every target names the same tree (in whatever order the entries of each directory are
  enumerated), have the same outcome: the same bytes on standard output, and also the
  same error stream and exit status.
\<close>

theorem deterministic_output:
  assumes "cwd w = cwd w'"
    and "\<forall>p \<in> set (''.'' # args).
           well_formed (lookup w p) \<and> well_formed (lookup w' p) \<and>
           same_tree (lookup w p) (lookup w' p)"
  shows "main w args = main w' args"
proof (cases "parse_args args []")
  case (Inl r)
  then show ?thesis by (simp add: main_def)
next
  case (Inr paths)
  have "find starts_with_dash args = None"
  proof (cases "find starts_with_dash args")
    case (Some a)
    from parse_args_first_dash [OF Some, of "[]"] Inr show ?thesis by simp
  qed simp
  then have paths: "paths = args"
    using Inr by (simp add: parse_args_no_dash)
  let ?ps = "if paths = [] then [''.''] else paths"
  have "\<forall>p \<in> set ?ps. well_formed (lookup w p) \<and> well_formed (lookup w' p) \<and>
           same_tree (lookup w p) (lookup w' p)"
    using assms(2) paths by auto
  with assms(1) have "run_paths w ?ps = run_paths w' ?ps"
    by (rule same_tree_run_paths)
  with Inr show ?thesis by (simp add: main_def)
qed

theorem deterministic_output_witness:
  "lookup plain_world ''.'' \<noteq> lookup reordered_world ''.'' \<and>
   main plain_world [] = main reordered_world [] \<and>
   main plain_world [''.'', ''ghost''] = main reordered_world [''.'', ''ghost'']"
proof -
  have c: "cwd plain_world = cwd reordered_world"
    by (simp add: plain_world_def reordered_world_def)
  have t: "\<forall>p \<in> set (''.'' # args).
           well_formed (lookup plain_world p) \<and> well_formed (lookup reordered_world p) \<and>
           same_tree (lookup plain_world p) (lookup reordered_world p)" for args
    by (auto simp: plain_world_def reordered_world_def)
  have d: "lookup plain_world ''.'' \<noteq> lookup reordered_world ''.''"
    by (simp add: plain_world_def reordered_world_def)
  show ?thesis
    using d deterministic_output [OF c t, of "[]"] deterministic_output [OF c t, of "[''.'', ''ghost'']"]
    by simp
qed

subsection \<open>C4: the version-control subsection\<close>

text \<open>
  Claim C4, as the code has it. A directory root that can be searched, rendered into a
  report buffer in good state: \<^verbatim>\<open>print_dir\<close> returns, and after the heading and the
  location subsection the buffer has received the placeholder heading \<^verbatim>\<open>## Git Info\<close>
  when an entry named \<^verbatim>\<open>.git\<close> that is a directory stands directly under the root
  (whether or not the entries of the root can be enumerated), and otherwise the notice
  \<^verbatim>\<open>Not a git repository\<close>; the structure subsection follows. (At a root that cannot
  be searched the query of \<^verbatim>\<open>is_git_repo\<close> throws, see \<open>print_dir_throws\<close> and
  \<open>unsearchable_root_aborts\<close>.)
\<close>

theorem vcs_subsection:
  assumes "\<not> failbit (out st)"
    and "can_search (lookup w p)"
    and "distinct (map fst (entries_of (lookup w p)))"
  shows "\<exists>st' rest. print_dir w st p = Inr st' \<and>
           buf (out st') =
           buf (out st) @
           ''# Repository Context\<newline>\<newline>## File System Location\<newline>\<newline>'' @
           generic_string (absolute (cwd w) p) @ ''\<newline>\<newline>'' @
           (if git_dir_present (lookup w p) then ''## Git Info\<newline>\<newline>''
            else ''Not a git repository\<newline>\<newline>'') @
           ''## Structure\<newline>'' @ rest"
proof -
  obtain st' r where "print_dir w st p = Inr st'"
    and "buf (out st') = buf (out st) @ dir_text w p @ r"
    using print_dir_starts [OF assms(1,2)] by blast
  then show ?thesis
    by (simp add: dir_text_def git_found_iff [OF assms(3,2)])
qed

theorem vcs_subsection_witness:
  "(\<exists>st' rest. print_dir repo_world \<lparr>out = ostringstream, cerr = []\<rparr> ''proj'' = Inr st' \<and>
      buf (out st') =
      ''# Repository Context\<newline>\<newline>## File System Location\<newline>\<newline>/home/u/proj\<newline>\<newline>## Git Info\<newline>\<newline>## Structure\<newline>'' @ rest)
   \<and> (\<exists>st' rest. print_dir plain_world \<lparr>out = ostringstream, cerr = []\<rparr> ''.'' = Inr st' \<and>
      buf (out st') =
      ''# Repository Context\<newline>\<newline>## File System Location\<newline>\<newline>/home/u/.\<newline>\<newline>Not a git repository\<newline>\<newline>## Structure\<newline>'' @ rest)
   \<and> (\<exists>st' rest. print_dir locked_world \<lparr>out = ostringstream, cerr = []\<rparr> ''vault'' = Inr st' \<and>
      buf (out st') =
      ''# Repository Context\<newline>\<newline>## File System Location\<newline>\<newline>/home/u/vault\<newline>\<newline>## Git Info\<newline>\<newline>## Structure\<newline>'' @ rest)"
proof -
  have g: "\<not> failbit (out \<lparr>out = ostringstream, cerr = []\<rparr>)"
    by (simp add: ostringstream_def)
  have s1: "can_search (lookup repo_world ''proj'')"
    and s2: "can_search (lookup plain_world ''.'')"
    and s3: "can_search (lookup locked_world ''vault'')"
    by (simp_all add: can_search_def repo_world_def plain_world_def locked_world_def)
  have d1: "distinct (map fst (entries_of (lookup repo_world ''proj'')))"
    and d2: "distinct (map fst (entries_of (lookup plain_world ''.'')))"
    and d3: "distinct (map fst (entries_of (lookup locked_world ''vault'')))"
    by (simp_all add: entries_of_def repo_world_def plain_world_def locked_world_def)
  have p1: "git_dir_present (lookup repo_world ''proj'')"
    and p2: "\<not> git_dir_present (lookup plain_world ''.'')"
    and p3: "git_dir_present (lookup locked_world ''vault'')"
    by (simp_all add: git_dir_present_def entries_of_def fs_is_directory_def
        repo_world_def plain_world_def locked_world_def)
  have a1: "generic_string (absolute (cwd repo_world) ''proj'') = ''/home/u/proj''"
    and a2: "generic_string (absolute (cwd plain_world) ''.'') = ''/home/u/.''"
    and a3: "generic_string (absolute (cwd locked_world) ''vault'') = ''/home/u/vault''"
    by (simp_all add: generic_string_def components_def absolute_def path_append_def
        is_absolute_def has_filename_def repo_world_def plain_world_def locked_world_def)
  show ?thesis
    using vcs_subsection [OF g s1 d1] vcs_subsection [OF g s2 d2] vcs_subsection [OF g s3 d3]
      p1 p2 p3 a1 a2 a3
    by (simp add: ostringstream_def)
qed

text \<open>The notice the code writes does not contain the literal text the claim names.\<close>

theorem not_a_repository_counterexample:
  "is_dir plain_world ''.'' \<and> \<not> git_dir_present (lookup plain_world ''.'') \<and>
   \<not> sublist ''not a repository'' (stdout (main plain_world []))"
proof -
  have "is_dir plain_world ''.''"
    by (simp add: is_dir_def plain_world_def fs_is_directory_def)
  moreover have "\<not> git_dir_present (lookup plain_world ''.'')"
    by (simp add: git_dir_present_def plain_world_def entries_of_def fs_is_directory_def)
  moreover have "\<not> sublist ''not a repository'' (stdout (main plain_world []))"
    by (simp add: plain_world_report sublist_code)
  ultimately show ?thesis by simp
qed

subsection \<open>C5: the file-system-location subsection\<close>

text \<open>
  Claim C5, as the code has it. A directory root that can be searched, rendered into a
  report buffer in good state: \<^verbatim>\<open>print_dir\<close> returns, and after the top-level heading
  the buffer has received the location heading and the result of \<^verbatim>\<open>fs::absolute\<close> in
  generic format. \<^verbatim>\<open>fs::absolute\<close> gives the path itself when it is absolute and the
  current directory joined with the path otherwise; the generic format joins its
  elements with single separators. The path is not brought into canonical form: dot
  and dot-dot elements stay.
\<close>

theorem location_subsection:
  assumes "\<not> failbit (out st)" and "can_search (lookup w p)"
  shows "\<exists>st' rest. print_dir w st p = Inr st' \<and>
           buf (out st') =
           buf (out st) @
           ''# Repository Context\<newline>\<newline>## File System Location\<newline>\<newline>'' @
           generic_string (if is_absolute p then p else path_append (cwd w) p) @
           ''\<newline>\<newline>'' @ rest"
proof -
  obtain st' r where "print_dir w st p = Inr st'"
    and "buf (out st') = buf (out st) @ dir_text w p @ r"
    using print_dir_starts [OF assms] by blast
  then show ?thesis
    by (simp add: dir_text_def absolute_def)
qed

theorem location_subsection_witness:
  "(\<exists>st' rest. print_dir repo_world \<lparr>out = ostringstream, cerr = []\<rparr> ''proj'' = Inr st' \<and>
      buf (out st') =
      ''# Repository Context\<newline>\<newline>## File System Location\<newline>\<newline>/home/u/proj\<newline>\<newline>'' @ rest)
   \<and> (\<exists>st' rest. print_dir repo_world \<lparr>out = ostringstream, cerr = []\<rparr> ''/home/u//proj'' = Inr st' \<and>
      buf (out st') =
      ''# Repository Context\<newline>\<newline>## File System Location\<newline>\<newline>/home/u/proj\<newline>\<newline>'' @ rest)"
proof -
  have g: "\<not> failbit (out \<lparr>out = ostringstream, cerr = []\<rparr>)"
    by (simp add: ostringstream_def)
  have s1: "can_search (lookup repo_world ''proj'')"
    and s2: "can_search (lookup repo_world ''/home/u//proj'')"
    by (simp_all add: can_search_def repo_world_def)
  have a1: "generic_string (if is_absolute ''proj'' then ''proj''
        else path_append (cwd repo_world) ''proj'') = ''/home/u/proj''"
    and a2: "generic_string (if is_absolute ''/home/u//proj'' then ''/home/u//proj''
        else path_append (cwd repo_world) ''/home/u//proj'') = ''/home/u/proj''"
    by (simp_all add: generic_string_def components_def path_append_def is_absolute_def
        has_filename_def repo_world_def)
  show ?thesis
    using location_subsection [OF g s1] location_subsection [OF g s2] a1 a2
    by (simp add: ostringstream_def)
qed

text \<open>For the default target \<^verbatim>\<open>.\<close> the location line ends in a dot element.\<close>

theorem location_not_canonical_counterexample:
  "is_dir plain_world ''.'' \<and>
   prefix ''# Repository Context\<newline>\<newline>## File System Location\<newline>\<newline>/home/u/.\<newline>\<newline>Not a git''
     (stdout (main plain_world [])) \<and>
   \<not> canonical_form ''/home/u/.''"
proof -
  have "is_dir plain_world ''.''"
    by (simp add: is_dir_def plain_world_def fs_is_directory_def)
  moreover have "prefix ''# Repository Context\<newline>\<newline>## File System Location\<newline>\<newline>/home/u/.\<newline>\<newline>Not a git''
     (stdout (main plain_world []))"
    by (simp add: plain_world_report)
  moreover have "\<not> canonical_form ''/home/u/.''"
    by (simp add: canonical_form_def components_def)
  ultimately show ?thesis by simp
qed

subsection \<open>C6: a path that does not exist\<close>



subsection \<open>C7: an unknown option\<close>

text \<open>
  Claim C7, as the code has it. The flag loop returns at the first argument that starts
  with \<^verbatim>\<open>-\<close>. When that argument is none of \<^verbatim>\<open>-h\<close>, \<^verbatim>\<open>--help\<close>, \<^verbatim>\<open>-v\<close>,
  \<^verbatim>\<open>--version\<close>, the process writes the error naming it and the usage hint to the
  error stream, writes nothing to standard output and exits with status 1. (An unknown
  option that comes after a help or version flag is never looked at.)
\<close>

theorem unknown_option_first:
  assumes "find starts_with_dash args = Some a"
    and "a \<notin> {''-h'', ''--help'', ''-v'', ''--version''}"
  shows "main w args =
           \<lparr>stdout = [],
            stderr = ''Unknown option: '' @ a @ ''\<newline>Use -h or --help for usage.\<newline>'',
            exit_code = 1\<rparr>"
  using assms by (simp add: main_def parse_args_first_dash unknown_option_outcome_def)

theorem unknown_option_first_witness:
  "main empty_world [''src'', ''--bogus'', ''-h''] =
     \<lparr>stdout = [],
      stderr = ''Unknown option: --bogus\<newline>Use -h or --help for usage.\<newline>'',
      exit_code = 1\<rparr>"
  using unknown_option_first [of "[''src'', ''--bogus'', ''-h'']" "''--bogus''" empty_world]
  by (simp add: starts_with_dash_def)

text \<open>The claim as stated, for every invocation that contains an unknown option, fails
  when a help flag comes first: the help text is printed and the exit status is 0.\<close>

theorem unknown_option_after_help_counterexample:
  "''--bogus'' \<in> set [''-h'', ''--bogus''] \<and> starts_with_dash ''--bogus'' \<and>
   ''--bogus'' \<notin> {''-h'', ''--help'', ''-v'', ''--version''} \<and>
   main empty_world [''-h'', ''--bogus''] = \<lparr>stdout = print_help, stderr = [], exit_code = 0\<rparr>"
  by (simp add: main_def starts_with_dash_def)

subsection \<open>C8: entries that are neither directories nor regular files\<close>

text \<open>
  Claim C8, as the code has it. The queries \<^verbatim>\<open>e.is_directory()\<close> and
  \<^verbatim>\<open>e.is_regular_file()\<close> follow symbolic links. Every entry whose status is then
  neither a directory nor a regular file (a device, a socket, a FIFO, a dangling link)
  is silently ignored at every level: the flattened file list and the structure output
  are those of the tree without such entries (\<open>prune\<close>). Every other entry is listed:
  at a directory the file list and the structure output are made, in the order of the
  names, of what each entry gives, a directory its name with the separator marker and
  its own listing, a regular file its name and its path. A symbolic link is listed like
  what it points to: replacing every link by its target (\<open>deref\<close>) changes neither the
  structure output nor the paths of the file list, nor what the renderer writes for a
  file.
\<close>

theorem special_entries_ignored:
  "collect_files root (prune n) files = collect_files root n files
 \<and> print_structure os root (prune n) depth = print_structure os root n depth
 \<and> ((name, c) \<in> set es \<and> fs_is_regular_file c \<longrightarrow>
      (path_append root name, c) \<in> set (collect_files root (Directory es) []))
 \<and> collect_files root (Directory es) files =
      files @ concat (map (\<lambda>e.
        if fs_is_directory (snd e) then collect_files (path_append root (fst e)) (snd e) []
        else if fs_is_regular_file (snd e) then [(path_append root (fst e), snd e)]
        else []) (sort_entries es))
 \<and> print_structure os root (Directory es) depth =
      put os (concat (map (\<lambda>e.
        if fs_is_directory (snd e) then
          replicate (depth * 2) CHR '' '' @ fst e @ ''/\<newline>'' @
          buf (print_structure ostringstream (path_append root (fst e)) (snd e) (depth + 1))
        else if fs_is_regular_file (snd e) then
          replicate (depth * 2) CHR '' '' @ fst e @ ''\<newline>''
        else []) (sort_entries es)))
 \<and> collect_files root (deref n) files =
      files @ map (\<lambda>f. (fst f, deref (snd f))) (collect_files root n [])
 \<and> print_structure os root (deref n) depth = print_structure os root n depth
 \<and> print_file st p (deref c) = print_file st p c"
proof (intro conjI impI)
  show "collect_files root (prune n) files = collect_files root n files"
    by (simp only: collect_files_append prune_walker)
  show "print_structure os root (prune n) depth = print_structure os root n depth"
    by (simp only: print_structure_put prune_walker)
  show "collect_files root (Directory es) files =
      files @ concat (map (\<lambda>e.
        if fs_is_directory (snd e) then collect_files (path_append root (fst e)) (snd e) []
        else if fs_is_regular_file (snd e) then [(path_append root (fst e), snd e)]
        else []) (sort_entries es))"
    by (rule collect_files_directory)
  show "print_structure os root (Directory es) depth =
      put os (concat (map (\<lambda>e.
        if fs_is_directory (snd e) then
          replicate (depth * 2) CHR '' '' @ fst e @ ''/\<newline>'' @
          buf (print_structure ostringstream (path_append root (fst e)) (snd e) (depth + 1))
        else if fs_is_regular_file (snd e) then
          replicate (depth * 2) CHR '' '' @ fst e @ ''\<newline>''
        else []) (sort_entries es)))"
    by (rule print_structure_directory)
  have "collect_files root (deref n) files = files @ file_list root (deref n)"
    by (rule collect_files_append)
  also have "\<dots> = files @ map (\<lambda>f. (fst f, deref (snd f))) (file_list root n)"
    by (simp only: deref_walker)
  finally show "collect_files root (deref n) files =
      files @ map (\<lambda>f. (fst f, deref (snd f))) (collect_files root n [])"
    by (simp only: file_list_def)
  show "print_structure os root (deref n) depth = print_structure os root n depth"
    by (simp only: print_structure_put deref_walker)
  show "print_file st p (deref c) = print_file st p c"
    by (rule print_file_deref)
next
  assume "(name, c) \<in> set es \<and> fs_is_regular_file c"
  then have "(path_append root name, c) \<in> set (file_list root (Directory es))"
    by (simp add: regular_entry_listed)
  then show "(path_append root name, c) \<in> set (collect_files root (Directory es) [])"
    by (simp only: file_list_def)
qed

theorem special_entries_ignored_witness:
  "prune linked_dir_tree =
     Directory [(''src'', Symlink (Directory [(''m.c'', Regular \<lparr>bytes = ''x'', readable = True\<rparr>)])),
                (''link'', Symlink (Regular \<lparr>bytes = ''x'', readable = True\<rparr>))] \<and>
   deref linked_dir_tree =
     Directory [(''tty'', Other),
                (''src'', Directory [(''m.c'', Regular \<lparr>bytes = ''x'', readable = True\<rparr>)]),
                (''link'', Regular \<lparr>bytes = ''x'', readable = True\<rparr>),
                (''gone'', Missing)] \<and>
   collect_files ''.'' (prune linked_dir_tree) [] = collect_files ''.'' linked_dir_tree [] \<and>
   print_structure ostringstream ''.'' (prune linked_dir_tree) 0 =
     print_structure ostringstream ''.'' linked_dir_tree 0 \<and>
   collect_files ''.'' (deref linked_dir_tree) [] =
     map (\<lambda>f. (fst f, deref (snd f))) (collect_files ''.'' linked_dir_tree []) \<and>
   print_structure ostringstream ''.'' (deref linked_dir_tree) 0 =
     print_structure ostringstream ''.'' linked_dir_tree 0 \<and>
   (''./link'', Symlink (Regular \<lparr>bytes = ''x'', readable = True\<rparr>)) \<in>
     set (collect_files ''.'' linked_dir_tree []) \<and>
   collect_files ''.'' linked_dir_tree [] =
     [(''./link'', Symlink (Regular \<lparr>bytes = ''x'', readable = True\<rparr>)),
      (''./src/m.c'', Regular \<lparr>bytes = ''x'', readable = True\<rparr>)] \<and>
   buf (print_structure ostringstream ''.'' linked_dir_tree 0) = ''link\<newline>src/\<newline>  m.c\<newline>''"
proof -
  have p: "prune linked_dir_tree =
     Directory [(''src'', Symlink (Directory [(''m.c'', Regular \<lparr>bytes = ''x'', readable = True\<rparr>)])),
                (''link'', Symlink (Regular \<lparr>bytes = ''x'', readable = True\<rparr>))]"
    by (simp add: linked_dir_tree_def ignored_def fs_is_directory_def fs_is_regular_file_def)
  have d: "deref linked_dir_tree =
     Directory [(''tty'', Other),
                (''src'', Directory [(''m.c'', Regular \<lparr>bytes = ''x'', readable = True\<rparr>)]),
                (''link'', Regular \<lparr>bytes = ''x'', readable = True\<rparr>),
                (''gone'', Missing)]"
    by (simp add: linked_dir_tree_def)
  have r: "fs_is_regular_file (Symlink (Regular \<lparr>bytes = ''x'', readable = True\<rparr>))"
    by (simp add: fs_is_regular_file_def)
  have a: "path_append ''.'' ''link'' = ''./link''"
    by (simp add: path_append_def is_absolute_def has_filename_def)
  have m: "(''link'', Symlink (Regular \<lparr>bytes = ''x'', readable = True\<rparr>)) \<in>
      set [(''tty'', Other),
           (''src'', Symlink (Directory [(''m.c'', Regular \<lparr>bytes = ''x'', readable = True\<rparr>)])),
           (''link'', Symlink (Regular \<lparr>bytes = ''x'', readable = True\<rparr>)),
           (''gone'', Symlink Missing)]"
    by simp
  note inst = special_entries_ignored [of "''.''" linked_dir_tree "[]" ostringstream 0 "''link''"
        "Symlink (Regular \<lparr>bytes = ''x'', readable = True\<rparr>)"
        "[(''tty'', Other),
          (''src'', Symlink (Directory [(''m.c'', Regular \<lparr>bytes = ''x'', readable = True\<rparr>)])),
          (''link'', Symlink (Regular \<lparr>bytes = ''x'', readable = True\<rparr>)),
          (''gone'', Symlink Missing)]"]
  from inst have 1: "collect_files ''.'' (prune linked_dir_tree) [] = collect_files ''.'' linked_dir_tree []"
    and 2: "print_structure ostringstream ''.'' (prune linked_dir_tree) 0 =
      print_structure ostringstream ''.'' linked_dir_tree 0"
    and 3: "collect_files ''.'' (deref linked_dir_tree) [] =
      map (\<lambda>f. (fst f, deref (snd f))) (collect_files ''.'' linked_dir_tree [])"
    and 4: "print_structure ostringstream ''.'' (deref linked_dir_tree) 0 =
      print_structure ostringstream ''.'' linked_dir_tree 0"
    by simp_all
  note listed = inst [THEN conjunct2, THEN conjunct2, THEN conjunct1, rule_format]
  have "(path_append ''.'' ''link'', Symlink (Regular \<lparr>bytes = ''x'', readable = True\<rparr>)) \<in>
     set (collect_files ''.''
       (Directory [(''tty'', Other),
          (''src'', Symlink (Directory [(''m.c'', Regular \<lparr>bytes = ''x'', readable = True\<rparr>)])),
          (''link'', Symlink (Regular \<lparr>bytes = ''x'', readable = True\<rparr>)),
          (''gone'', Symlink Missing)]) [])"
    using m r by (intro listed conjI)
  then have 5: "(''./link'', Symlink (Regular \<lparr>bytes = ''x'', readable = True\<rparr>)) \<in>
     set (collect_files ''.'' linked_dir_tree [])"
    by (simp only: a linked_dir_tree_def [symmetric])
  from p d 1 2 3 4 5 linked_dir_tree_walk show ?thesis by blast
qed

text \<open>A symbolic link is not ignored as such: one that points to a regular file appears
  in the file list and in the structure output.\<close>

theorem symlink_entry_listed_counterexample:
  "collect_files ''.'' linked_tree [] =
     [(''./link'', Symlink (Regular \<lparr>bytes = ''x'', readable = True\<rparr>))] \<and>
   buf (print_structure ostringstream ''.'' linked_tree 0) = ''link\<newline>''"
  by (simp add: linked_tree_def file_list_def [symmetric] print_structure_put file_list_eq
      structure_text_eq entry_files_def entry_lines_def sort_entries_def directory_iterator_def
      fs_is_directory_def fs_is_regular_file_def path_append_def is_absolute_def has_filename_def)

subsection \<open>C9: a target that is neither a directory nor a regular file\<close>

text \<open>
  Claim C9. A top-level target that exists but is neither a directory nor a regular file
  (a socket or a device given as an argument) is skipped silently: processing it changes
  neither the report buffer nor the error stream, an invocation with it as the sole
  argument prints nothing and exits with status 0, and among several positional targets
  the outcome is that of the other targets.
\<close>

theorem special_file_target_skipped:
  assumes "pexists w p" and "\<not> is_dir w p" and "\<not> is_file w p"
  shows "process_path w p st = Inr st
       \<and> (\<not> starts_with_dash p \<longrightarrow> main w [p] = \<lparr>stdout = [], stderr = [], exit_code = 0\<rparr>)
       \<and> (find starts_with_dash (pre @ p # post) = None \<longrightarrow>
            main w (pre @ p # post) = run_paths w (pre @ post))"
proof (intro conjI impI)
  from assms show "process_path w p st = Inr st" by (simp add: process_path_def)
next
  from assms(2) have nt: "\<not> throws w p" by (rule not_dir_not_throws)
  assume "\<not> starts_with_dash p"
  then have "find starts_with_dash [p] = None" by simp
  then have "main w [p] = run_paths w [p]" by (simp add: main_positional)
  with assms nt show "main w [p] = \<lparr>stdout = [], stderr = [], exit_code = 0\<rparr>"
    by (simp add: run_paths_eq path_out_other path_err_def ostringstream_def)
next
  from assms(2) have nt: "\<not> throws w p" by (rule not_dir_not_throws)
  from assms have silent: "path_err w p = []" by (simp add: path_err_def)
  assume nd: "find starts_with_dash (pre @ p # post) = None"
  then have m: "main w (pre @ p # post) = run_paths w (pre @ p # post)"
    by (simp add: main_positional)
  have f: "find (throws w) (pre @ p # post) = find (throws w) (pre @ post)"
    using nt by (rule find_skip)
  have t: "concat (map (path_err w) (takeWhile (\<lambda>p. \<not> throws w p) (pre @ p # post))) =
      concat (map (path_err w) (takeWhile (\<lambda>p. \<not> throws w p) (pre @ post)))"
    using nt silent by (rule takeWhile_skip)
  from assms silent show "main w (pre @ p # post) = run_paths w (pre @ post)"
    by (simp add: m run_paths_eq f t path_out_other split: option.splits)
qed

theorem special_file_target_skipped_witness:
  "pexists demo_world ''/dev/null'' \<and> \<not> is_dir demo_world ''/dev/null'' \<and>
   \<not> is_file demo_world ''/dev/null'' \<and>
   main demo_world [''/dev/null''] = \<lparr>stdout = [], stderr = [], exit_code = 0\<rparr> \<and>
   main demo_world [''/dev/null'', ''notes.txt''] = run_paths demo_world [''notes.txt'']"
proof -
  have e: "pexists demo_world ''/dev/null''"
    and d: "\<not> is_dir demo_world ''/dev/null''"
    and f: "\<not> is_file demo_world ''/dev/null''"
    by (simp_all add: pexists_def is_dir_def is_file_def demo_world_def fs_exists_def
        fs_is_directory_def fs_is_regular_file_def)
  show ?thesis
    using e d f special_file_target_skipped [OF e d f, of _ "[]" "[''notes.txt'']"]
    by (simp add: starts_with_dash_def)
qed

subsection \<open>C10: help and version flags after positional arguments\<close>

text \<open>
  Claim C10, as the code has it. When the first argument that starts with \<^verbatim>\<open>-\<close> is
  \<^verbatim>\<open>-h\<close> or \<^verbatim>\<open>--help\<close> (\<^verbatim>\<open>-v\<close> or \<^verbatim>\<open>--version\<close>), however many positional
  paths come before it and whatever comes after it, the process prints only the help
  text (the tool name and version), nothing on the error stream, and exits with status
  0: no path is processed and no report is produced.
\<close>

theorem help_version_first:
  assumes "find starts_with_dash args = Some a"
  shows "(a = ''-h'' \<or> a = ''--help'' \<longrightarrow>
            main w args = \<lparr>stdout = print_help, stderr = [], exit_code = 0\<rparr>) \<and>
         (a = ''-v'' \<or> a = ''--version'' \<longrightarrow>
            main w args = \<lparr>stdout = ''repopac 0.1.0\<newline>'', stderr = [], exit_code = 0\<rparr>)"
  using assms
  by (auto simp: main_def parse_args_first_dash help_outcome_def version_outcome_def)

theorem help_version_first_witness:
  "main empty_world [''src'', ''docs'', ''--version'', ''--bogus''] =
     \<lparr>stdout = ''repopac 0.1.0\<newline>'', stderr = [], exit_code = 0\<rparr>"
  using help_version_first [of "[''src'', ''docs'', ''--version'', ''--bogus'']" "''--version''" empty_world]
  by (simp add: starts_with_dash_def)

text \<open>The flag does not short-circuit the invocation at every position: after an unknown
  option it is never reached, also when a positional path stands before it.\<close>

theorem help_after_unknown_option_counterexample:
  "main empty_world [''--bogus'', ''src'', ''-h''] =
     \<lparr>stdout = [],
      stderr = ''Unknown option: --bogus\<newline>Use -h or --help for usage.\<newline>'',
      exit_code = 1\<rparr>"
  by (simp add: main_def)

end
